theory Spec2Isabelle
  imports Complex_Main "HOL-Library.Word" "HOL-Library.Log_Nat"
begin

section \<open>Python values: exceptions and floats\<close>

text \<open>
  The exceptions that the modelled paths of \<^verbatim>\<open>scripts/utils.py\<close> and
  \<^verbatim>\<open>api/models/painting.py\<close> can raise. None of them is defined by the repository:
  they are Python's built-in exceptions, raised by the interpreter (\<^verbatim>\<open>/\<close>, \<^verbatim>\<open>int()\<close>,
  list indexing, a call that lacks a required argument) or by Pillow (\<^verbatim>\<open>resize\<close>,
  \<^verbatim>\<open>Image.new\<close>, \<^verbatim>\<open>paste\<close>, \<^verbatim>\<open>ImageOps.invert\<close>), and pydantic's
  \<^verbatim>\<open>ValidationError\<close>.
\<close>

datatype error =
    ZeroDivisionError | OverflowError | ValueError | IndexError | OSError
  | MemoryError | TypeError | ValidationError

text \<open>
  A Python \<^verbatim>\<open>float\<close> is an IEEE 754 binary64 value. A finite one is modelled by the
  rational number it denotes; the sign of zero is dropped, since nothing in the modelled
  code observes it.
\<close>

datatype pyfloat = Fin rat | PInf | NInf | NaN

text \<open>\<open>ilog2 x\<close> is the binary exponent of a positive rational: \<open>2^e \<le> x < 2^(e+1)\<close>.\<close>

definition ilog2 :: "rat \<Rightarrow> int" where
  "ilog2 x = (case quotient_of x of (p, q) \<Rightarrow>
     (let d = bitlen p - bitlen q in if x < 2 powi d then d - 1 else d))"

text \<open>Rounding a rational to the nearest integer, ties to the even one.\<close>

definition rhe :: "rat \<Rightarrow> int" where
  "rhe t = (let f = \<lfloor>t\<rfloor>; r = t - of_int f in
     if r < 1 / 2 then f
     else if 1 / 2 < r then f + 1
     else if even f then f else f + 1)"

text \<open>
  The spacing of binary64 values around \<open>x\<close> is \<open>2^k\<close> with \<open>k = e - 52\<close> for the
  exponent \<open>e\<close> of \<open>x\<close>, and never finer than \<open>2^-1074\<close> (the subnormal range).
\<close>

definition quantum :: "rat \<Rightarrow> int" where
  "quantum x = max (ilog2 \<bar>x\<bar> - 52) (- 1074)"

text \<open>
  \<open>rnd x\<close> is \<open>x\<close> rounded to nearest, ties to even, with a 53-bit significand and no
  upper limit on the exponent; \<open>fl\<close> adds the overflow to an infinity.
\<close>

definition rnd :: "rat \<Rightarrow> rat" where
  "rnd x = (if x = 0 then 0
            else of_int (rhe (x / 2 powi quantum x)) * 2 powi quantum x)"

definition max_double :: rat where
  "max_double = (2 ^ 53 - 1) * 2 ^ 971"

definition fl :: "rat \<Rightarrow> pyfloat" where
  "fl x = (let r = rnd x in
     if max_double < r then PInf else if r < - max_double then NInf else Fin r)"

text \<open>The sign of a float that is not a NaN, as \<open>-1\<close>, \<open>0\<close> or \<open>1\<close>.\<close>

fun fsgn :: "pyfloat \<Rightarrow> int" where
  "fsgn (Fin a) = (if a < 0 then - 1 else if a = 0 then 0 else 1)"
| "fsgn PInf = 1"
| "fsgn NInf = - 1"
| "fsgn NaN = 0"

text \<open>Float multiplication \<^verbatim>\<open>x * y\<close>: it never raises; an overflow gives an infinity.\<close>

fun fmul :: "pyfloat \<Rightarrow> pyfloat \<Rightarrow> pyfloat" where
  "fmul (Fin a) (Fin b) = fl (a * b)"
| "fmul x y =
     (if x = NaN \<or> y = NaN \<or> fsgn x * fsgn y = 0 then NaN
      else if 0 < fsgn x * fsgn y then PInf else NInf)"

text \<open>The comparison \<^verbatim>\<open>x < y\<close> of two floats; it is false when either is a NaN.\<close>

fun flt :: "pyfloat \<Rightarrow> pyfloat \<Rightarrow> bool" where
  "flt NaN _ = False"
| "flt _ NaN = False"
| "flt (Fin a) (Fin b) = (a < b)"
| "flt NInf y = (y \<noteq> NInf)"
| "flt x PInf = (x \<noteq> PInf)"
| "flt _ _ = False"

text \<open>\<^verbatim>\<open>min(a, b)\<close> keeps its first argument unless the second is smaller.\<close>

definition py_min :: "pyfloat \<Rightarrow> pyfloat \<Rightarrow> pyfloat" where
  "py_min a b = (if flt b a then b else a)"

text \<open>
  True division \<^verbatim>\<open>a / b\<close> of two Python integers: the correctly rounded quotient,
  \<^verbatim>\<open>ZeroDivisionError\<close> for a zero divisor and \<^verbatim>\<open>OverflowError\<close> when the
  quotient is too large for a float.
\<close>

definition py_truediv :: "int \<Rightarrow> int \<Rightarrow> error + pyfloat" where
  "py_truediv a b =
     (if b = 0 then Inl ZeroDivisionError
      else case fl (of_int a / of_int b) of
             Fin q \<Rightarrow> Inr (Fin q)
           | _ \<Rightarrow> Inl OverflowError)"

text \<open>
  \<^verbatim>\<open>n * x\<close> with an integer \<open>n\<close> and a float \<open>x\<close> converts \<open>n\<close> to a float first
  (rounding to nearest; \<^verbatim>\<open>OverflowError\<close> when \<open>n\<close> is too large).
\<close>

definition py_float :: "int \<Rightarrow> error + pyfloat" where
  "py_float n = (case fl (of_int n) of Fin q \<Rightarrow> Inr (Fin q) | _ \<Rightarrow> Inl OverflowError)"

definition py_int_mul_float :: "int \<Rightarrow> pyfloat \<Rightarrow> error + pyfloat" where
  "py_int_mul_float n x = (case py_float n of Inl e \<Rightarrow> Inl e | Inr f \<Rightarrow> Inr (fmul f x))"

text \<open>
  \<^verbatim>\<open>int(x)\<close> truncates towards zero; it raises \<^verbatim>\<open>OverflowError\<close> on an infinity
  and \<^verbatim>\<open>ValueError\<close> on a NaN.
\<close>

definition trunc :: "rat \<Rightarrow> int" where
  "trunc q = (if 0 \<le> q then \<lfloor>q\<rfloor> else \<lceil>q\<rceil>)"

fun py_int :: "pyfloat \<Rightarrow> error + int" where
  "py_int (Fin q) = Inr (trunc q)"
| "py_int PInf = Inl OverflowError"
| "py_int NInf = Inl OverflowError"
| "py_int NaN = Inl ValueError"

section \<open>Pillow images\<close>

text \<open>
  An image has a size and a raster; the raster's constructor is the image's mode. The
  modes modelled are \<^verbatim>\<open>1\<close> (bilevel), \<^verbatim>\<open>L\<close> (8-bit luminance), \<^verbatim>\<open>RGB\<close> and
  \<^verbatim>\<open>RGBA\<close>. A raster is a function of the pixel coordinates; only the coordinates
  inside the image are meaningful.
\<close>

type_synonym byte = "8 word"

datatype raster =
    Bilevel "int \<times> int \<Rightarrow> bool"
  | Grey "int \<times> int \<Rightarrow> byte"
  | RGB "int \<times> int \<Rightarrow> byte \<times> byte \<times> byte"
  | RGBA "int \<times> int \<Rightarrow> byte \<times> byte \<times> byte \<times> byte"

datatype mode = Mode_1 | Mode_L | Mode_RGB | Mode_RGBA

record image =
  width :: nat
  height :: nat
  raster :: raster

fun raster_mode :: "raster \<Rightarrow> mode" where
  "raster_mode (Bilevel _) = Mode_1"
| "raster_mode (Grey _) = Mode_L"
| "raster_mode (RGB _) = Mode_RGB"
| "raster_mode (RGBA _) = Mode_RGBA"

definition mode :: "image \<Rightarrow> mode" where
  "mode im = raster_mode (raster im)"

text \<open>\<^verbatim>\<open>image.size\<close>: the pair (width, height) of Python integers.\<close>

definition size_of :: "image \<Rightarrow> int \<times> int" where
  "size_of im = (int (width im), int (height im))"

text \<open>
  What \<^verbatim>\<open>getpixel\<close> reports at a coordinate inside the image: one integer for a
  single-band image (0 or 255 in mode \<^verbatim>\<open>1\<close>), a tuple of integers otherwise.
\<close>

datatype pixel = Band1 int | Band3 int int int | Band4 int int int int

fun raster_pixel :: "raster \<Rightarrow> int \<times> int \<Rightarrow> pixel" where
  "raster_pixel (Bilevel f) p = Band1 (if f p then 255 else 0)"
| "raster_pixel (Grey f) p = Band1 (uint (f p))"
| "raster_pixel (RGB f) p = (case f p of (r, g, b) \<Rightarrow> Band3 (uint r) (uint g) (uint b))"
| "raster_pixel (RGBA f) p =
     (case f p of (r, g, b, a) \<Rightarrow> Band4 (uint r) (uint g) (uint b) (uint a))"

definition inside :: "image \<Rightarrow> int \<times> int \<Rightarrow> bool" where
  "inside im p = (case p of (x, y) \<Rightarrow> 0 \<le> x \<and> x < int (width im) \<and> 0 \<le> y \<and> y < int (height im))"

definition pixel_at :: "image \<Rightarrow> int \<times> int \<Rightarrow> pixel option" where
  "pixel_at im p = (if inside im p then Some (raster_pixel (raster im) p) else None)"

text \<open>
  Pillow's conversion of one RGB pixel to luminance (\<^verbatim>\<open>L24(rgb) >> 16\<close> in
  \<^verbatim>\<open>Convert.c\<close>): 16-bit fixed-point weights of ITU-R 601-2, rounded.
\<close>

definition rgb2l :: "byte \<times> byte \<times> byte \<Rightarrow> byte" where
  "rgb2l c = (case c of (r, g, b) \<Rightarrow>
     of_nat ((unat r * 19595 + unat g * 38470 + unat b * 7471 + 32768) div 65536))"

text \<open>\<^verbatim>\<open>image.convert("L")\<close>.\<close>

fun raster_to_L :: "raster \<Rightarrow> (int \<times> int \<Rightarrow> byte)" where
  "raster_to_L (Bilevel f) = (\<lambda>p. if f p then 255 else 0)"
| "raster_to_L (Grey f) = f"
| "raster_to_L (RGB f) = (\<lambda>p. rgb2l (f p))"
| "raster_to_L (RGBA f) = (\<lambda>p. case f p of (r, g, b, a) \<Rightarrow> rgb2l (r, g, b))"

definition convert_L :: "image \<Rightarrow> image" where
  "convert_L im = im\<lparr>raster := Grey (raster_to_L (raster im))\<rparr>"

text \<open>The conversion to RGB that \<^verbatim>\<open>paste\<close> applies to a source of another mode.\<close>

fun raster_to_RGB :: "raster \<Rightarrow> (int \<times> int \<Rightarrow> byte \<times> byte \<times> byte)" where
  "raster_to_RGB (Bilevel f) = (\<lambda>p. if f p then (255, 255, 255) else (0, 0, 0))"
| "raster_to_RGB (Grey f) = (\<lambda>p. (f p, f p, f p))"
| "raster_to_RGB (RGB f) = f"
| "raster_to_RGB (RGBA f) = (\<lambda>p. case f p of (r, g, b, a) \<Rightarrow> (r, g, b))"

text \<open>
  Sizes are passed to Pillow's C core as C \<^verbatim>\<open>int\<close>s, and the core refuses to create an
  image wider than \<^verbatim>\<open>(INT_MAX / 4) - 1\<close>, which is \<open>2^29 - 2\<close>, with
  \<^verbatim>\<open>MemoryError\<close>.
\<close>

definition c_int :: "int \<Rightarrow> bool" where
  "c_int n \<longleftrightarrow> - (2 ^ 31) \<le> n \<and> n < 2 ^ 31"

definition max_width :: int where
  "max_width = 2 ^ 29 - 2"

text \<open>
  What Pillow does depends on two things outside the repository: the interpolation of
  \<^verbatim>\<open>resize\<close>, and whether the C core gets the memory it asks for. Both are parameters:
  \<open>resample\<close> gives the raster of the resized image from the source image and the new
  size; \<open>memory\<close> tells for each request whether it is granted. There are three requests:
  to resize (or, for an unchanged size, copy) an image to a size, which is granted when
  the C core gets the new image, the intermediate image and the coefficient tables of the
  resampling (it also refuses a table that would be too large); to create the RGB canvas
  of a size; and to make the RGB copy of a size that \<^verbatim>\<open>paste\<close> needs of a source of
  another mode. A request that is not granted raises \<^verbatim>\<open>MemoryError\<close>.
\<close>

datatype request =
    For_resize image "int \<times> int"
  | For_new "int \<times> int"
  | For_convert "int \<times> int"

record pillow =
  resample :: "image \<Rightarrow> nat \<times> nat \<Rightarrow> raster"
  memory :: "request \<Rightarrow> bool"

text \<open>
  \<^verbatim>\<open>Image.new("RGB", size, color)\<close>: \<^verbatim>\<open>ValueError\<close> for a negative width or
  height, \<^verbatim>\<open>OverflowError\<close> for one that is no C \<^verbatim>\<open>int\<close>, \<^verbatim>\<open>MemoryError\<close> for a
  width above \<open>2^29 - 2\<close> or when the memory is not granted; otherwise an image of that
  size with every pixel of the given colour. A size of 0 is allowed.
\<close>

definition Image_new_RGB ::
  "pillow \<Rightarrow> int \<times> int \<Rightarrow> byte \<times> byte \<times> byte \<Rightarrow> error + image" where
  "Image_new_RGB env sz colour = (case sz of (w, h) \<Rightarrow>
     if w < 0 \<or> h < 0 then Inl ValueError
     else if \<not> c_int w \<or> \<not> c_int h then Inl OverflowError
     else if max_width < w \<or> \<not> memory env (For_new (w, h)) then Inl MemoryError
     else Inr \<lparr>width = nat w, height = nat h, raster = RGB (\<lambda>p. colour)\<rparr>)"

definition white :: "byte \<times> byte \<times> byte" where
  "white = (255, 255, 255)"

text \<open>
  \<^verbatim>\<open>image.resize(size)\<close>: a copy when the size is unchanged; otherwise the C core
  takes the size as two C \<^verbatim>\<open>int\<close>s (\<^verbatim>\<open>OverflowError\<close> when one does not fit),
  rejects a width or height below 1 with \<^verbatim>\<open>ValueError\<close> (\<^verbatim>\<open>height and width must be > 0\<close>)
  and then resamples, which raises \<^verbatim>\<open>MemoryError\<close> for a width above \<open>2^29 - 2\<close> or
  when the memory is not granted.
\<close>

definition Image_resize :: "pillow \<Rightarrow> image \<Rightarrow> int \<times> int \<Rightarrow> error + image" where
  "Image_resize env im sz = (case sz of (w, h) \<Rightarrow>
     if size_of im = (w, h)
     then (if memory env (For_resize im (w, h)) then Inr im else Inl MemoryError)
     else if \<not> c_int w \<or> \<not> c_int h then Inl OverflowError
     else if w < 1 \<or> h < 1 then Inl ValueError
     else if max_width < w \<or> \<not> memory env (For_resize im (w, h)) then Inl MemoryError
     else Inr \<lparr>width = nat w, height = nat h, raster = resample env im (nat w, nat h)\<rparr>)"

text \<open>
  \<^verbatim>\<open>canvas.paste(im, (x0, y0))\<close> on an RGB canvas: the source is copied into the box
  with upper left corner \<open>(x0, y0)\<close> and the source's size, clipped to the canvas. A source
  of mode \<^verbatim>\<open>1\<close> or \<^verbatim>\<open>L\<close> is converted to RGB first, which needs memory for the
  converted copy; of an RGBA source the three colour bands are copied as they are. The canvas
  keeps its size and mode. The repository pastes onto the RGB canvas only, so a canvas of
  another mode is left as it is here.
\<close>

definition in_region :: "int \<times> int \<Rightarrow> int \<times> int \<Rightarrow> int \<times> int \<Rightarrow> bool" where
  "in_region box sz p = (case (box, sz, p) of ((x0, y0), (w, h), (x, y)) \<Rightarrow>
     x0 \<le> x \<and> x < x0 + w \<and> y0 \<le> y \<and> y < y0 + h)"

definition Image_paste :: "pillow \<Rightarrow> image \<Rightarrow> image \<Rightarrow> int \<times> int \<Rightarrow> error + image" where
  "Image_paste env canvas im box =
     (case raster canvas of
        RGB f \<Rightarrow>
          if (mode im = Mode_1 \<or> mode im = Mode_L) \<and> \<not> memory env (For_convert (size_of im))
          then Inl MemoryError
          else Inr (canvas\<lparr>raster := RGB (\<lambda>p.
            if in_region box (size_of im) p
            then raster_to_RGB (raster im) (fst p - fst box, snd p - snd box)
            else f p)\<rparr>)
      | _ \<Rightarrow> Inr canvas)"

text \<open>
  \<^verbatim>\<open>ImageOps.invert(image)\<close>: every band value \<open>v\<close> becomes \<open>255 - v\<close>. Pillow
  supports the modes \<^verbatim>\<open>1\<close>, \<^verbatim>\<open>L\<close> and \<^verbatim>\<open>RGB\<close> and raises \<^verbatim>\<open>OSError\<close> for
  another one.
\<close>

definition ImageOps_invert :: "image \<Rightarrow> error + image" where
  "ImageOps_invert im =
     (case raster im of
        Bilevel f \<Rightarrow> Inr (im\<lparr>raster := Bilevel (\<lambda>p. \<not> f p)\<rparr>)
      | Grey f \<Rightarrow> Inr (im\<lparr>raster := Grey (\<lambda>p. 255 - f p)\<rparr>)
      | RGB f \<Rightarrow> Inr (im\<lparr>raster := RGB (\<lambda>p. case f p of (r, g, b) \<Rightarrow> (255 - r, 255 - g, 255 - b))\<rparr>)
      | RGBA f \<Rightarrow> Inl OSError)"

section \<open>\<^verbatim>\<open>scripts/utils.py\<close>: class \<^verbatim>\<open>ImageAugmentation\<close>\<close>

record ImageAugmentation =
  target_width :: int
  target_height :: int
  roi_scale :: pyfloat

text \<open>
  \<^verbatim>\<open>__init__(self, target_width, target_height, roi_scale=0.6)\<close>: an omitted
  \<^verbatim>\<open>roi_scale\<close> is \<open>None\<close> here. The literal \<^verbatim>\<open>0.6\<close> is the float nearest to 6/10.
\<close>

definition ImageAugmentation_init :: "int \<Rightarrow> int \<Rightarrow> pyfloat option \<Rightarrow> ImageAugmentation" where
  "ImageAugmentation_init tw th roi =
     \<lparr>target_width = tw, target_height = th,
      roi_scale = (case roi of None \<Rightarrow> fl (6 / 10) | Some r \<Rightarrow> r)\<rparr>"


text \<open>
  Lines 63 to 66 of \<^verbatim>\<open>extend_image\<close>: the size of the resized image.
  \<^verbatim>\<open>
  scale = min(self.target_width / original_width, self.target_height / original_height)
  new_width = int(original_width * scale * self.roi_scale)
  new_height = int(original_height * scale * self.roi_scale)
  \<close>
\<close>

definition new_size :: "ImageAugmentation \<Rightarrow> int \<times> int \<Rightarrow> error + int \<times> int" where
  "new_size self sz = (case sz of (original_width, original_height) \<Rightarrow>
     (case py_truediv (target_width self) original_width of Inl e \<Rightarrow> Inl e | Inr a \<Rightarrow>
     (case py_truediv (target_height self) original_height of Inl e \<Rightarrow> Inl e | Inr b \<Rightarrow>
     (let scale = py_min a b in
     (case py_int_mul_float original_width scale of Inl e \<Rightarrow> Inl e | Inr xw \<Rightarrow>
     (case py_int (fmul xw (roi_scale self)) of Inl e \<Rightarrow> Inl e | Inr new_width \<Rightarrow>
     (case py_int_mul_float original_height scale of Inl e \<Rightarrow> Inl e | Inr xh \<Rightarrow>
     (case py_int (fmul xh (roi_scale self)) of Inl e \<Rightarrow> Inl e | Inr new_height \<Rightarrow>
      Inr (new_width, new_height)))))))))"

text \<open>
  The float that line 64 binds to \<^verbatim>\<open>scale\<close> when neither division raises, named for
  use in statements about the new size.
\<close>

definition float_scale :: "int \<Rightarrow> int \<Rightarrow> int \<Rightarrow> int \<Rightarrow> pyfloat" where
  "float_scale tw th original_width original_height =
     py_min (fl (of_int tw / of_int original_width)) (fl (of_int th / of_int original_height))"

text \<open>
  Lines 69 and 70: \<^verbatim>\<open>//\<close> is Python's floor division, which is \<open>div\<close> on \<open>int\<close>.
\<close>

definition paste_offset :: "ImageAugmentation \<Rightarrow> int \<times> int \<Rightarrow> int \<times> int" where
  "paste_offset self nsz = (case nsz of (new_width, new_height) \<Rightarrow>
     ((target_width self - new_width) div 2, (target_height self - new_height) div 2))"

text \<open>
  \<^verbatim>\<open>extend_image(self, image)\<close>, lines 59 to 72. \<^verbatim>\<open>paste\<close> changes the canvas in
  place; the model returns the changed canvas.
\<close>

definition extend_image :: "pillow \<Rightarrow> ImageAugmentation \<Rightarrow> image \<Rightarrow> error + image" where
  "extend_image env self img =
     (case new_size self (size_of img) of Inl e \<Rightarrow> Inl e | Inr nsz \<Rightarrow>
     (case Image_resize env img nsz of Inl e \<Rightarrow> Inl e | Inr resized_image \<Rightarrow>
     (case Image_new_RGB env (target_width self, target_height self) white of Inl e \<Rightarrow> Inl e
      | Inr extended_image \<Rightarrow>
        Image_paste env extended_image resized_image (paste_offset self nsz))))"

text \<open>
  \<^verbatim>\<open>generate_mask_from_bbox\<close>, lines 85 to 100. The two models are external: \<open>yolo\<close>
  gives the list \<^verbatim>\<open>results[0].boxes.xyxy.tolist()\<close> of the boxes detected in the image,
  \<open>sam\<close> the boolean array that \<^verbatim>\<open>post_process_masks(...)[0][0][0]\<close> yields for the image
  and one box. \<^verbatim>\<open>bboxes[0]\<close> raises \<^verbatim>\<open>IndexError\<close> on an empty list.
  \<^verbatim>\<open>Image.fromarray\<close> of a boolean array is an image of mode \<^verbatim>\<open>1\<close>. Loading the
  checkpoints is not modelled.
\<close>

type_synonym bbox = "rat \<times> rat \<times> rat \<times> rat"

record bool_array =
  rows :: nat
  cols :: nat
  cell :: "int \<times> int \<Rightarrow> bool"

definition Image_fromarray :: "bool_array \<Rightarrow> image" where
  "Image_fromarray a = \<lparr>width = cols a, height = rows a, raster = Bilevel (cell a)\<rparr>"

definition generate_mask_from_bbox ::
  "(image \<Rightarrow> bbox list) \<Rightarrow> (image \<Rightarrow> bbox \<Rightarrow> bool_array) \<Rightarrow> image \<Rightarrow> error + image" where
  "generate_mask_from_bbox yolo sam img =
     (case yolo img of
        [] \<Rightarrow> Inl IndexError
      | b # _ \<Rightarrow> Inr (Image_fromarray (sam img b)))"


text \<open>\<^verbatim>\<open>invert_mask(self, mask_image)\<close>: \<^verbatim>\<open>ImageOps.invert(mask_image.convert("L"))\<close>.\<close>

definition invert_mask :: "image \<Rightarrow> error + image" where
  "invert_mask mask_image = ImageOps_invert (convert_L mask_image)"

section \<open>\<^verbatim>\<open>api/models/painting.py\<close>\<close>



section \<open>The Canvas Compositor as the specification words it\<close>

text \<open>
  Section 4.1 of the specification, read as the formulas stand, in exact arithmetic:
  \<open>scale = min(target_width/orig_w, target_height/orig_h)\<close>,
  \<open>new_w = orig_w * scale * roi_scale\<close> and \<open>new_h = orig_h * scale * roi_scale\<close>,
  integer-truncated, and the paste offset \<open>((target_width - new_w)/2, (target_height - new_h)/2)\<close>,
  integer-truncated.
\<close>

definition spec_scale :: "int \<Rightarrow> int \<Rightarrow> int \<Rightarrow> int \<Rightarrow> rat" where
  "spec_scale tw th orig_w orig_h = min (of_int tw / of_int orig_w) (of_int th / of_int orig_h)"

definition spec_new_dim :: "int \<Rightarrow> rat \<Rightarrow> rat \<Rightarrow> int" where
  "spec_new_dim orig scale roi = trunc (of_int orig * scale * roi)"

definition spec_offset :: "int \<Rightarrow> int \<Rightarrow> int" where
  "spec_offset target new = trunc (of_int (target - new) / 2)"

section \<open>Concrete inputs\<close>

text \<open>
  Small images, a nearest-neighbour interpolation with all memory granted and stand-ins
  for the external models, used to run the definitions on concrete inputs.
\<close>

definition solid_L :: "nat \<Rightarrow> nat \<Rightarrow> byte \<Rightarrow> image" where
  "solid_L w h v = \<lparr>width = w, height = h, raster = Grey (\<lambda>p. v)\<rparr>"

definition solid_RGB :: "nat \<Rightarrow> nat \<Rightarrow> byte \<times> byte \<times> byte \<Rightarrow> image" where
  "solid_RGB w h c = \<lparr>width = w, height = h, raster = RGB (\<lambda>p. c)\<rparr>"

fun raster_remap :: "(int \<times> int \<Rightarrow> int \<times> int) \<Rightarrow> raster \<Rightarrow> raster" where
  "raster_remap g (Bilevel f) = Bilevel (\<lambda>p. f (g p))"
| "raster_remap g (Grey f) = Grey (\<lambda>p. f (g p))"
| "raster_remap g (RGB f) = RGB (\<lambda>p. f (g p))"
| "raster_remap g (RGBA f) = RGBA (\<lambda>p. f (g p))"

definition nearest_raster :: "image \<Rightarrow> nat \<times> nat \<Rightarrow> raster" where
  "nearest_raster im sz = (case sz of (w, h) \<Rightarrow>
     raster_remap (\<lambda>(x, y). (x * int (width im) div int w, y * int (height im) div int h))
       (raster im))"

definition nearest :: pillow where
  "nearest = \<lparr>resample = nearest_raster, memory = (\<lambda>q. True)\<rparr>"

definition no_boxes :: "image \<Rightarrow> bbox list" where
  "no_boxes im = []"

definition whole_image_mask :: "image \<Rightarrow> bbox \<Rightarrow> bool_array" where
  "whole_image_mask im b = \<lparr>rows = height im, cols = width im, cell = (\<lambda>p. True)\<rparr>"

section \<open>Properties of the float model\<close>

subsection \<open>Powers of two and the binary exponent\<close>

lemma two_powi_pos: "0 < (2::rat) powi k"
  by simp

lemma two_powi_less: "a < b \<Longrightarrow> (2::rat) powi a < 2 powi b"
  by (rule power_int_strict_increasing) simp_all

lemma two_powi_le: "a \<le> b \<Longrightarrow> (2::rat) powi a \<le> 2 powi b"
  by (rule power_int_increasing) simp_all

lemma two_powi_Suc: "(2::rat) powi (k + 1) = 2 * 2 powi k"
  by (simp add: power_int_add)

lemma bitlen_powi:
  assumes "0 < p"
  shows "(2::rat) powi (bitlen p - 1) \<le> of_int p" and "of_int p < (2::rat) powi bitlen p"
proof -
  from assms have b1: "1 \<le> bitlen p"
    using bitlen_eq_zero_iff [of p] bitlen_nonneg [of p] by linarith
  from bitlen_bounds [OF assms] have lo: "2 ^ nat (bitlen p - 1) \<le> p" and hi: "p < 2 ^ nat (bitlen p)"
    by simp_all
  have "(2::rat) powi (bitlen p - 1) = of_int (2 ^ nat (bitlen p - 1))"
    using b1 by (simp add: power_int_def)
  also have "\<dots> \<le> of_int p"
    using lo by (simp only: of_int_le_iff)
  finally show "(2::rat) powi (bitlen p - 1) \<le> of_int p" .
  have "(of_int p :: rat) < of_int (2 ^ nat (bitlen p))"
    using hi by (simp only: of_int_less_iff)
  also have "\<dots> = 2 powi bitlen p"
    using b1 by (simp add: power_int_def)
  finally show "of_int p < (2::rat) powi bitlen p" .
qed

lemma ilog2_unique:
  assumes "(2::rat) powi e \<le> x" "x < 2 powi (e + 1)" "2 powi e' \<le> x" "x < 2 powi (e' + 1)"
  shows "e = e'"
proof (rule ccontr)
  assume "e \<noteq> e'"
  then consider "e + 1 \<le> e'" | "e' + 1 \<le> e" by linarith
  then show False
  proof cases
    case 1
    then have "(2::rat) powi (e + 1) \<le> 2 powi e'" by (rule two_powi_le)
    with assms show False by linarith
  next
    case 2
    then have "(2::rat) powi (e' + 1) \<le> 2 powi e" by (rule two_powi_le)
    with assms show False by linarith
  qed
qed

lemma ilog2_bounds:
  assumes "0 < x"
  shows "2 powi ilog2 x \<le> x \<and> x < 2 powi (ilog2 x + 1)"
proof -
  obtain p q where pq: "quotient_of x = (p, q)" by (cases "quotient_of x")
  have q: "0 < q" using pq by (rule quotient_of_denom_pos)
  have x: "x = of_int p / of_int q" using pq by (rule quotient_of_div)
  have p: "0 < p" using assms q x by (simp add: zero_less_divide_iff)
  define d where "d = bitlen p - bitlen q"
  have qr: "0 < (of_int q :: rat)" using q by simp
  have xq: "x * of_int q = of_int p" using qr x by simp
  have "(2::rat) powi (d - 1) * of_int q \<le> 2 powi (d - 1) * 2 powi bitlen q"
    using bitlen_powi(2) [OF q] two_powi_pos [of "d - 1"] by (simp add: less_imp_le)
  also have "\<dots> = 2 powi (bitlen p - 1)"
    by (simp add: d_def flip: power_int_add)
  also have "\<dots> \<le> x * of_int q"
    using bitlen_powi(1) [OF p] xq by simp
  finally have lo: "2 powi (d - 1) \<le> x"
    using qr by simp
  have "x * of_int q < (2::rat) powi bitlen p"
    using bitlen_powi(2) [OF p] xq by simp
  also have "\<dots> = 2 powi (d + 1) * 2 powi (bitlen q - 1)"
    by (simp add: d_def flip: power_int_add)
  also have "\<dots> \<le> 2 powi (d + 1) * of_int q"
    using bitlen_powi(1) [OF q] two_powi_pos [of "d + 1"] by simp
  finally have hi: "x < 2 powi (d + 1)"
    using qr by simp
  show ?thesis
    using lo hi by (auto simp: ilog2_def pq d_def [symmetric] Let_def not_less)
qed

subsection \<open>Rounding to the nearest integer\<close>

lemma rhe_of_int: "rhe (of_int n) = n"
  by (simp add: rhe_def)

lemma rhe_cases:
  "rhe t = \<lfloor>t\<rfloor> \<and> t - of_int \<lfloor>t\<rfloor> \<le> 1 / 2 \<or> rhe t = \<lfloor>t\<rfloor> + 1 \<and> 1 / 2 \<le> t - of_int \<lfloor>t\<rfloor>"
  unfolding rhe_def Let_def by (simp add: not_less)

lemma rhe_upper: "of_int (rhe t) \<le> t + 1 / 2"
proof -
  have fl: "of_int \<lfloor>t\<rfloor> \<le> t" by simp
  from rhe_cases [of t] show ?thesis
  proof (elim disjE conjE)
    assume "rhe t = \<lfloor>t\<rfloor>"
    then have "of_int (rhe t) = (of_int \<lfloor>t\<rfloor> :: rat)" by simp
    with fl show ?thesis by linarith
  next
    assume "rhe t = \<lfloor>t\<rfloor> + 1" "1 / 2 \<le> t - of_int \<lfloor>t\<rfloor>"
    then show ?thesis by simp
  qed
qed

lemma rhe_lower: "t - 1 / 2 \<le> of_int (rhe t)"
proof -
  have fl: "t < of_int \<lfloor>t\<rfloor> + 1" by linarith
  from rhe_cases [of t] show ?thesis
  proof (elim disjE conjE)
    assume "rhe t = \<lfloor>t\<rfloor>" "t - of_int \<lfloor>t\<rfloor> \<le> 1 / 2"
    then show ?thesis by simp
  next
    assume "rhe t = \<lfloor>t\<rfloor> + 1"
    with fl show ?thesis by simp
  qed
qed

lemma rhe_floor_le: "\<lfloor>t\<rfloor> \<le> rhe t"
  by (simp add: rhe_def Let_def)

lemma rhe_le_floor1: "rhe t \<le> \<lfloor>t\<rfloor> + 1"
  by (simp add: rhe_def Let_def)

lemma rhe_mono:
  assumes "s \<le> t"
  shows "rhe s \<le> rhe t"
proof (cases "\<lfloor>s\<rfloor> = \<lfloor>t\<rfloor>")
  case True
  have "s - of_int \<lfloor>t\<rfloor> \<le> t - of_int \<lfloor>t\<rfloor>" using assms by simp
  then show ?thesis
    unfolding rhe_def Let_def True by (simp add: not_less)
next
  case False
  with assms have "\<lfloor>s\<rfloor> + 1 \<le> \<lfloor>t\<rfloor>"
    using floor_mono [OF assms] by linarith
  with rhe_le_floor1 [of s] rhe_floor_le [of t] show ?thesis
    by linarith
qed

lemma rhe_ge: "of_int n \<le> t \<Longrightarrow> n \<le> rhe t"
  using rhe_mono [of "of_int n" t] by (simp add: rhe_of_int)

lemma rhe_le: "t \<le> of_int n \<Longrightarrow> rhe t \<le> n"
  using rhe_mono [of t "of_int n"] by (simp add: rhe_of_int)

lemma floor_minus_nonint:
  fixes t :: rat
  assumes "t \<noteq> of_int \<lfloor>t\<rfloor>"
  shows "\<lfloor>- t\<rfloor> = - \<lfloor>t\<rfloor> - 1"
proof (rule floor_unique)
  have "of_int \<lfloor>t\<rfloor> < t"
    by (rule le_neq_trans [OF of_int_floor_le]) (rule not_sym [OF assms])
  then show "- t < of_int (- \<lfloor>t\<rfloor> - 1) + 1" by simp
  have "t < of_int \<lfloor>t\<rfloor> + 1" by linarith
  then show "of_int (- \<lfloor>t\<rfloor> - 1) \<le> - t" by simp
qed

lemma rhe_minus: "rhe (- t) = - rhe t"
proof (cases "t = of_int \<lfloor>t\<rfloor>")
  case True
  have "rhe (- of_int \<lfloor>t\<rfloor>) = - rhe (of_int \<lfloor>t\<rfloor>)"
    unfolding of_int_minus [symmetric] rhe_of_int ..
  with True show ?thesis by simp
next
  case False
  note fl = floor_minus_nonint [OF False]
  have ne: "t - of_int \<lfloor>t\<rfloor> \<noteq> 0" using False by simp
  show ?thesis
    unfolding rhe_def Let_def fl using ne by (simp add: algebra_simps)
qed

subsection \<open>Rounding to the nearest float\<close>

lemma two_powi_less_cancel:
  assumes "(2::rat) powi a < 2 powi b"
  shows "a < b"
proof (rule ccontr)
  assume "\<not> a < b"
  then have "b \<le> a" by simp
  then have "(2::rat) powi b \<le> 2 powi a" by (rule two_powi_le)
  with assms show False by linarith
qed

lemma quantum_eq:
  assumes "(2::rat) powi e \<le> \<bar>x\<bar>" "\<bar>x\<bar> < (2::rat) powi (e + 1)"
  shows "quantum x = max (e - 52) (- 1074)"
proof -
  have "0 < \<bar>x\<bar>" using assms(1) two_powi_pos [of e] by linarith
  from ilog2_bounds [OF this] have "ilog2 \<bar>x\<bar> = e"
    using assms by (intro ilog2_unique [of _ "\<bar>x\<bar>"]) simp_all
  then show ?thesis by (simp add: quantum_def)
qed

lemma quantum_ge: "- 1074 \<le> quantum x"
  by (simp add: quantum_def)

lemma quantum_minus: "quantum (- x) = quantum x"
  by (simp add: quantum_def)

lemma rnd_minus: "rnd (- x) = - rnd x"
  by (simp add: rnd_def quantum_minus rhe_minus)

lemma rnd_0: "rnd 0 = 0"
  by (simp add: rnd_def)

lemma rnd_eq:
  assumes "(2::rat) powi e \<le> \<bar>x\<bar>" "\<bar>x\<bar> < (2::rat) powi (e + 1)" "k = max (e - 52) (- 1074)"
  shows "rnd x = of_int (rhe (x / 2 powi k)) * 2 powi k"
proof -
  have "0 < \<bar>x\<bar>" using assms(1) two_powi_pos [of e] by linarith
  then have "x \<noteq> 0" by simp
  then show ?thesis
    by (simp add: rnd_def quantum_eq [OF assms(1,2)] assms(3))
qed

text \<open>Scaled by its quantum, a positive number is below \<open>2^53\<close>.\<close>

lemma scaled_less:
  assumes "0 < x"
  shows "x / 2 powi quantum x < 2 ^ 53"
proof -
  have "x < 2 powi (ilog2 x + 1)" using ilog2_bounds [OF assms] by simp
  also have "\<dots> \<le> 2 powi (quantum x + 53)"
    using assms by (intro two_powi_le) (simp add: quantum_def)
  also have "\<dots> = 2 ^ 53 * 2 powi quantum x"
    by (simp add: power_int_add)
  finally show ?thesis
    using two_powi_pos [of "quantum x"] by (simp add: pos_divide_less_eq)
qed

lemma scaled_ge:
  assumes "0 < x" "- 1074 < quantum x"
  shows "2 ^ 52 \<le> x / 2 powi quantum x"
proof -
  have q: "quantum x = ilog2 x - 52"
    using assms by (simp add: quantum_def max_def split: if_splits)
  have "2 ^ 52 * 2 powi quantum x = (2::rat) powi (quantum x + 52)"
    by (simp add: power_int_add)
  also have "\<dots> \<le> x"
    using ilog2_bounds [OF assms(1)] by (simp add: q)
  finally show ?thesis
    using two_powi_pos [of "quantum x"] by (simp add: pos_le_divide_eq)
qed

lemma rnd_pos_upper:
  assumes "0 < x"
  shows "rnd x \<le> 2 powi (quantum x + 53)"
proof -
  have "rhe (x / 2 powi quantum x) \<le> 2 ^ 53"
    by (rule rhe_le) (use scaled_less [OF assms] in simp)
  then have "(of_int (rhe (x / 2 powi quantum x)) :: rat) \<le> of_int (2 ^ 53)"
    by (simp only: of_int_le_iff)
  then have "of_int (rhe (x / 2 powi quantum x)) * 2 powi quantum x
      \<le> (of_int (2 ^ 53) :: rat) * 2 powi quantum x"
    by (rule mult_right_mono) (rule less_imp_le [OF two_powi_pos])
  then show ?thesis
    using assms by (simp add: rnd_def power_int_add mult.commute)
qed

lemma rnd_pos_lower:
  assumes "0 < x" "- 1074 < quantum x"
  shows "2 powi (quantum x + 52) \<le> rnd x"
proof -
  have "2 ^ 52 \<le> rhe (x / 2 powi quantum x)"
    by (rule rhe_ge) (use scaled_ge [OF assms] in simp)
  then have "(of_int (2 ^ 52) :: rat) \<le> of_int (rhe (x / 2 powi quantum x))"
    by (simp only: of_int_le_iff)
  then have "(of_int (2 ^ 52) :: rat) * 2 powi quantum x
      \<le> of_int (rhe (x / 2 powi quantum x)) * 2 powi quantum x"
    by (rule mult_right_mono) (rule less_imp_le [OF two_powi_pos])
  then show ?thesis
    using assms by (simp add: rnd_def power_int_add mult.commute)
qed

lemma rnd_nonneg:
  assumes "0 \<le> x"
  shows "0 \<le> rnd x"
proof (cases "x = 0")
  case True
  then show ?thesis by (simp add: rnd_0)
next
  case False
  with assms have "0 \<le> x / 2 powi quantum x"
    using two_powi_pos [of "quantum x"] by simp
  then have "0 \<le> rhe (x / 2 powi quantum x)"
    by (intro rhe_ge) simp
  then show ?thesis
    using two_powi_pos [of "quantum x"] False by (simp add: rnd_def)
qed

lemma ilog2_mono:
  assumes "0 < x" "x \<le> y"
  shows "ilog2 x \<le> ilog2 y"
proof (rule ccontr)
  assume "\<not> ilog2 x \<le> ilog2 y"
  then have "ilog2 y + 1 \<le> ilog2 x" by simp
  then have "(2::rat) powi (ilog2 y + 1) \<le> 2 powi ilog2 x" by (rule two_powi_le)
  moreover have "y < 2 powi (ilog2 y + 1)" using ilog2_bounds [of y] assms by simp
  moreover have "2 powi ilog2 x \<le> x" using ilog2_bounds [of x] assms by simp
  ultimately show False using assms by linarith
qed

lemma quantum_mono:
  assumes "0 < x" "x \<le> y"
  shows "quantum x \<le> quantum y"
  using ilog2_mono [OF assms] assms by (simp add: quantum_def)

lemma rnd_mono_pos:
  assumes "0 < x" "x \<le> y"
  shows "rnd x \<le> rnd y"
proof (cases "quantum x = quantum y")
  case True
  have "x / 2 powi quantum y \<le> y / 2 powi quantum y"
    using assms two_powi_pos [of "quantum y"] by (simp add: divide_right_mono)
  then have "rhe (x / 2 powi quantum y) \<le> rhe (y / 2 powi quantum y)" by (rule rhe_mono)
  then have "(of_int (rhe (x / 2 powi quantum y)) :: rat) \<le> of_int (rhe (y / 2 powi quantum y))"
    by (simp only: of_int_le_iff)
  then show ?thesis
    using assms two_powi_pos [of "quantum y"] by (simp add: rnd_def True)
next
  case False
  with quantum_mono [OF assms] have lt: "quantum x < quantum y" by simp
  have y: "0 < y" using assms by simp
  have "rnd x \<le> 2 powi (quantum x + 53)" by (rule rnd_pos_upper [OF assms(1)])
  also have "\<dots> \<le> 2 powi (quantum y + 52)" using lt by (intro two_powi_le) simp
  also have "\<dots> \<le> rnd y" using lt quantum_ge [of x] by (intro rnd_pos_lower [OF y]) simp
  finally show ?thesis .
qed

lemma rnd_mono:
  assumes "x \<le> y"
  shows "rnd x \<le> rnd y"
proof -
  consider "0 < x" | "x \<le> 0" "0 \<le> y" | "y < 0" by linarith
  then show ?thesis
  proof cases
    case 1
    then show ?thesis using assms by (rule rnd_mono_pos)
  next
    case 2
    have "rnd x \<le> 0" using rnd_nonneg [of "- x"] 2 by (simp add: rnd_minus)
    also have "0 \<le> rnd y" using 2 by (intro rnd_nonneg)
    finally show ?thesis .
  next
    case 3
    then have "rnd (- y) \<le> rnd (- x)" using assms by (intro rnd_mono_pos) simp_all
    then show ?thesis by (simp add: rnd_minus)
  qed
qed

text \<open>A number with a 53-bit significand and an exponent in range is a float.\<close>

lemma rnd_fix:
  assumes "\<bar>m\<bar> < 2 ^ 53" "- 1074 \<le> j"
  shows "rnd (of_int m * 2 powi j) = of_int m * 2 powi j"
proof (cases "m = 0")
  case True
  then show ?thesis by (simp add: rnd_0)
next
  case False
  define x :: rat where "x = of_int m * 2 powi j"
  have x0: "x \<noteq> 0" using False by (simp add: x_def)
  then have ax: "0 < \<bar>x\<bar>" by simp
  have "(of_int \<bar>m\<bar> :: rat) < of_int (2 ^ 53)" using assms(1) by (simp only: of_int_less_iff)
  then have "of_int \<bar>m\<bar> * 2 powi j < (of_int (2 ^ 53) :: rat) * 2 powi j"
    by (rule mult_strict_right_mono) (rule two_powi_pos)
  then have "\<bar>x\<bar> < 2 ^ 53 * 2 powi j"
    using two_powi_pos [of j] by (simp add: x_def abs_mult)
  also have "\<dots> = 2 powi (j + 53)" by (simp add: power_int_add)
  finally have "2 powi ilog2 \<bar>x\<bar> < (2::rat) powi (j + 53)"
    using ilog2_bounds [OF ax] by linarith
  then have "ilog2 \<bar>x\<bar> < j + 53"
    by (rule two_powi_less_cancel)
  then have "quantum x \<le> j" using assms(2) by (simp add: quantum_def)
  define k where "k = quantum x"
  have kj: "k \<le> j" using \<open>quantum x \<le> j\<close> by (simp add: k_def)
  define n where "n = nat (j - k)"
  have "(2::rat) powi j = 2 powi (k + int n)"
    using kj by (simp add: n_def)
  also have "\<dots> = 2 powi k * 2 ^ n"
    by (simp add: power_int_add)
  finally have pj: "(2::rat) powi j = 2 powi k * 2 ^ n" .
  have xk: "x = of_int (m * 2 ^ n) * 2 powi k"
    unfolding x_def pj by simp
  have "x / 2 powi k = of_int (m * 2 ^ n)"
    unfolding xk using two_powi_pos [of k] by simp
  then have "rhe (x / 2 powi k) = m * 2 ^ n"
    by (simp only: rhe_of_int)
  then have "rnd x = of_int (m * 2 ^ n) * 2 powi k"
    using x0 by (simp add: rnd_def k_def)
  then have "rnd x = x"
    by (simp only: xk [symmetric])
  then show ?thesis by (simp only: x_def)
qed

text \<open>The rounding error above the subnormal range is at most half a unit in the last place.\<close>

lemma rnd_upper_err:
  assumes "2 powi (- 1022) \<le> x"
  shows "rnd x \<le> x * (1 + 2 powi (- 53))"
proof -
  have x: "0 < x" using assms two_powi_pos [of "- 1022"] by linarith
  have "(2::rat) powi (- 1022) < 2 powi (ilog2 x + 1)"
    using assms ilog2_bounds [OF x] by linarith
  then have "- 1022 < ilog2 x + 1"
    by (rule two_powi_less_cancel)
  then have q: "quantum x = ilog2 x - 52" using x by (simp add: quantum_def)
  let ?q = "(2::rat) powi quantum x"
  have "of_int (rhe (x / ?q)) * ?q \<le> (x / ?q + 1 / 2) * ?q"
    by (rule mult_right_mono [OF rhe_upper]) (rule less_imp_le [OF two_powi_pos])
  also have "\<dots> = x + ?q / 2"
    using two_powi_pos [of "quantum x"] by (simp add: algebra_simps)
  also have "?q / 2 = 2 powi ilog2 x * 2 powi (- 53)"
    by (simp add: q power_int_diff power_int_minus_divide)
  also have "x + 2 powi ilog2 x * 2 powi (- 53) \<le> x + x * 2 powi (- 53)"
    using ilog2_bounds [OF x] two_powi_pos [of "- 53"] by simp
  finally show ?thesis
    using x by (simp add: rnd_def algebra_simps)
qed

subsection \<open>Evaluation\<close>

text \<open>Evaluation on quotients of integers, and on numbers that are floats already.\<close>

lemma rhe_divide:
  assumes "0 < b"
  shows "rhe (of_int a / of_int b) =
    (if 2 * (a mod b) < b then a div b
     else if b < 2 * (a mod b) then a div b + 1
     else if even (a div b) then a div b else a div b + 1)"
proof -
  have fl: "\<lfloor>(of_int a / of_int b :: rat)\<rfloor> = a div b"
    by (rule floor_divide_of_int_eq)
  have b: "0 < (of_int b :: rat)" using assms by simp
  have "(of_int a :: rat) = of_int (a div b * b + a mod b)" by (simp only: div_mult_mod_eq)
  also have "\<dots> = of_int (a div b) * of_int b + of_int (a mod b)"
    by (simp only: of_int_add of_int_mult)
  finally have "(of_int a / of_int b :: rat) = of_int (a div b) + of_int (a mod b) / of_int b"
    using b by (simp add: field_simps)
  then have r: "(of_int a / of_int b :: rat) - of_int (a div b) = of_int (a mod b) / of_int b"
    by simp
  have lt: "(of_int (a mod b) / of_int b :: rat) < 1 / 2 \<longleftrightarrow> 2 * (a mod b) < b"
  proof -
    have "(of_int (a mod b) / of_int b :: rat) < 1 / 2 \<longleftrightarrow> (of_int (2 * (a mod b)) :: rat) < of_int b"
      using b by (simp add: field_simps)
    then show ?thesis by (simp only: of_int_less_iff)
  qed
  have gt: "1 / 2 < (of_int (a mod b) / of_int b :: rat) \<longleftrightarrow> b < 2 * (a mod b)"
  proof -
    have "1 / 2 < (of_int (a mod b) / of_int b :: rat) \<longleftrightarrow> (of_int b :: rat) < of_int (2 * (a mod b))"
      using b by (simp add: field_simps)
    then show ?thesis by (simp only: of_int_less_iff)
  qed
  show ?thesis
    unfolding rhe_def Let_def fl r lt gt ..
qed

lemma trunc_of_int: "trunc (of_int n) = n"
  by (simp add: trunc_def)

lemma trunc_divide:
  assumes "0 \<le> a" "0 < b"
  shows "trunc (of_int a / of_int b) = a div b"
  using assms by (simp add: trunc_def floor_divide_of_int_eq)

lemma trunc_nonneg: "0 \<le> q \<Longrightarrow> trunc q = \<lfloor>q\<rfloor>"
  by (simp add: trunc_def)

lemma max_double_eq: "max_double = 2 powi 1024 - 2 powi 971"
  by (simp add: max_double_def)

lemma fl_fin:
  assumes "\<bar>rnd x\<bar> \<le> max_double"
  shows "fl x = Fin (rnd x)"
  using assms by (auto simp: fl_def Let_def)

lemma fl_fix:
  assumes "\<bar>m\<bar> < 2 ^ 53" "- 1074 \<le> j" "j \<le> 970"
  shows "fl (of_int m * 2 powi j) = Fin (of_int m * 2 powi j)"
proof -
  have r: "rnd (of_int m * 2 powi j) = of_int m * 2 powi j"
    using assms(1,2) by (rule rnd_fix)
  have "(of_int \<bar>m\<bar> :: rat) \<le> of_int (2 ^ 53)"
    using assms(1) by (simp only: of_int_le_iff)
  then have "of_int \<bar>m\<bar> * 2 powi j \<le> (of_int (2 ^ 53) :: rat) * 2 powi j"
    by (rule mult_right_mono) (rule less_imp_le [OF two_powi_pos])
  also have "\<dots> = 2 powi (j + 53)" by (simp add: power_int_add)
  also have "\<dots> \<le> 2 powi 1023" using assms(3) by (intro two_powi_le) simp
  also have "\<dots> \<le> max_double" by (simp add: max_double_def)
  finally have "\<bar>of_int m * 2 powi j :: rat\<bar> \<le> max_double"
    using two_powi_pos [of j] by (simp add: abs_mult)
  then show ?thesis
    by (simp add: fl_fin r)
qed

lemma fl_of_int:
  assumes "\<bar>n\<bar> < 2 ^ 53"
  shows "fl (of_int n) = Fin (of_int n)"
  using fl_fix [OF assms, of 0] by simp

lemma fl_half:
  assumes "\<bar>n\<bar> < 2 ^ 53"
  shows "fl (of_int n / 2) = Fin (of_int n / 2)"
  using fl_fix [OF assms, of "- 1"] by (simp add: power_int_minus_divide)

lemma fl_0: "fl 0 = Fin 0"
  using fl_of_int [of 0] by simp



section \<open>The Mask Inverter\<close>

lemma uint_255_minus: "uint (255 - w :: byte) = 255 - uint w"
proof -
  have "uint w < 2 ^ 8" using uint_bounded [of w] by simp
  then have "uint w \<le> uint (255 :: byte)" by simp
  then show ?thesis
    using uint_sub_lem [of w 255] by simp
qed

lemma invert_mask_eq:
  "invert_mask m = Inr (m\<lparr>raster := Grey (\<lambda>p. 255 - raster_to_L (raster m) p)\<rparr>)"
  by (simp add: invert_mask_def ImageOps_invert_def convert_L_def)

lemma inside_raster_update: "inside (m\<lparr>raster := r\<rparr>) p = inside m p"
  by (simp add: inside_def)

lemma single_band_pixel:
  "mode m = Mode_1 \<or> mode m = Mode_L \<Longrightarrow>
   raster_pixel (raster m) p = Band1 (uint (raster_to_L (raster m) p))"
  by (cases "raster m") (simp_all add: mode_def)

text \<open>
  Claim C2. At every coordinate inside a mask, the pixel of the inverted mask is 255 minus
  the pixel of the mask under 8-bit luminance encoding, that is, minus the value that the
  conversion to mode \<^verbatim>\<open>L\<close> gives there. For a single-channel mask (mode \<^verbatim>\<open>1\<close> or
  \<^verbatim>\<open>L\<close>) that value is the mask's own pixel value. \<open>invert_mask\<close> raises nothing.
\<close>

theorem invert_mask_pixel:
  assumes "inside m p"
  shows "\<exists>out. invert_mask m = Inr out \<and>
    pixel_at out p = Some (Band1 (255 - uint (raster_to_L (raster m) p))) \<and>
    pixel_at (convert_L m) p = Some (Band1 (uint (raster_to_L (raster m) p))) \<and>
    (mode m = Mode_1 \<or> mode m = Mode_L \<longrightarrow>
       pixel_at m p = Some (Band1 (uint (raster_to_L (raster m) p))))"
  using assms
  by (simp add: invert_mask_eq pixel_at_def inside_raster_update convert_L_def
      uint_255_minus single_band_pixel)

text \<open>The theorem at a 2 by 2 mask of value 200: the inverted pixel is 55.\<close>

theorem invert_mask_pixel_witness:
  "inside (solid_L 2 2 200) (1, 0) \<and>
   (\<exists>out. invert_mask (solid_L 2 2 200) = Inr out \<and> pixel_at out (1, 0) = Some (Band1 55)) \<and>
   pixel_at (solid_L 2 2 200) (1, 0) = Some (Band1 200)"
proof -
  have h: "inside (solid_L 2 2 200) (1, 0)"
    by (simp add: inside_def solid_L_def)
  have m: "mode (solid_L 2 2 200) = Mode_L"
    by (simp add: mode_def solid_L_def)
  from invert_mask_pixel [OF h] m h show ?thesis
    by (auto simp: solid_L_def)
qed

lemma double_invert_byte: "255 - (255 - w) = (w :: byte)"
  by simp

text \<open>
  Claim C7. Inverting a single-channel mask twice gives back a mask of the same size with
  the same pixel value at every coordinate; a mask of mode \<^verbatim>\<open>L\<close> comes back as it was.
  (A mask of mode \<^verbatim>\<open>1\<close>, as \<open>generate_mask_from_bbox\<close> makes it, comes back in mode
  \<^verbatim>\<open>L\<close> with the pixel values 0 and 255 unchanged.)
\<close>

theorem invert_mask_twice:
  assumes "mode m = Mode_1 \<or> mode m = Mode_L"
  shows "\<exists>m1 m2. invert_mask m = Inr m1 \<and> invert_mask m1 = Inr m2 \<and>
    size_of m2 = size_of m \<and> (\<forall>p. pixel_at m2 p = pixel_at m p) \<and>
    (mode m = Mode_L \<longrightarrow> m2 = m)"
proof -
  let ?m1 = "m\<lparr>raster := Grey (\<lambda>p. 255 - raster_to_L (raster m) p)\<rparr>"
  let ?m2 = "m\<lparr>raster := Grey (raster_to_L (raster m))\<rparr>"
  have 1: "invert_mask m = Inr ?m1" by (rule invert_mask_eq)
  have 2: "invert_mask ?m1 = Inr ?m2" by (simp add: invert_mask_eq)
  have 3: "size_of ?m2 = size_of m" by (simp add: size_of_def)
  have 4: "pixel_at ?m2 p = pixel_at m p" for p
    using single_band_pixel [OF assms, of p]
    by (simp add: pixel_at_def inside_raster_update)
  have 5: "mode m = Mode_L \<longrightarrow> ?m2 = m"
    by (cases "raster m") (auto simp: mode_def)
  from 1 2 3 4 5 show ?thesis by blast
qed

text \<open>The theorem at the bilevel mask that \<open>Image.fromarray\<close> makes of an all-true array.\<close>

theorem invert_mask_twice_witness:
  "mode (Image_fromarray (whole_image_mask (solid_L 2 2 0) (0, 0, 2, 2))) = Mode_1 \<and>
   (\<exists>m1 m2. invert_mask (Image_fromarray (whole_image_mask (solid_L 2 2 0) (0, 0, 2, 2))) = Inr m1 \<and>
      invert_mask m1 = Inr m2 \<and> pixel_at m1 (0, 0) = Some (Band1 0) \<and>
      pixel_at m2 (0, 0) = Some (Band1 255))"
proof -
  let ?m = "Image_fromarray (whole_image_mask (solid_L 2 2 0) (0, 0, 2, 2))"
  have h: "mode ?m = Mode_1 \<or> mode ?m = Mode_L"
    by (simp add: mode_def Image_fromarray_def)
  have p: "pixel_at ?m (0, 0) = Some (Band1 255)"
    by (simp add: pixel_at_def inside_def Image_fromarray_def whole_image_mask_def solid_L_def)
  have q: "invert_mask ?m = Inr m1 \<Longrightarrow> pixel_at m1 (0, 0) = Some (Band1 0)" for m1
    by (auto simp: invert_mask_eq pixel_at_def inside_def Image_fromarray_def
        whole_image_mask_def solid_L_def)
  from invert_mask_twice [OF h] p q show ?thesis
    by (auto simp: mode_def Image_fromarray_def)
qed

section \<open>Configuration defaults\<close>



section \<open>The Subject Locator\<close>

text \<open>
  Claim C5, as stated, fails on the error kind: with no detected box the function raises
  Python's \<^verbatim>\<open>IndexError\<close> from \<^verbatim>\<open>bboxes[0]\<close>; the repository defines no
  \<^verbatim>\<open>NoDetection\<close> error.
\<close>

theorem no_detection_counterexample:
  "no_boxes (solid_RGB 2 2 white) = [] \<and>
   generate_mask_from_bbox no_boxes whole_image_mask (solid_RGB 2 2 white) = Inl IndexError"
  by (simp add: generate_mask_from_bbox_def no_boxes_def)

text \<open>
  Claim C5, amended. Whenever the detection model returns no bounding box for the image, the
  function fails with \<^verbatim>\<open>IndexError\<close>; it returns no mask and substitutes no empty or
  default box.
\<close>

theorem no_detection_IndexError:
  assumes "yolo img = []"
  shows "generate_mask_from_bbox yolo sam img = Inl IndexError"
  using assms by (simp add: generate_mask_from_bbox_def)

theorem no_detection_IndexError_witness:
  "no_boxes (solid_L 3 1 7) = [] \<and>
   generate_mask_from_bbox no_boxes whole_image_mask (solid_L 3 1 7) = Inl IndexError"
proof -
  have h: "no_boxes (solid_L 3 1 7) = []" by (simp add: no_boxes_def)
  from h no_detection_IndexError [of no_boxes "solid_L 3 1 7" whole_image_mask, OF h]
  show ?thesis by simp
qed

section \<open>The Canvas Compositor\<close>

subsection \<open>The size of the resized image\<close>

lemma rnd_abs_err: "\<bar>rnd x - x\<bar> \<le> \<bar>x\<bar> * 2 powi (- 53) + 2 powi (- 1075)"
proof (cases "x = 0")
  case True
  have "\<bar>rnd x - x\<bar> = 0" using True by (simp add: rnd_0)
  moreover have "\<bar>x\<bar> * 2 powi (- 53) = 0" using True by simp
  ultimately show ?thesis using two_powi_pos [of "- 1075"] by linarith
next
  case False
  then have ax: "0 < \<bar>x\<bar>" by simp
  let ?q = "(2::rat) powi quantum x"
  have q: "0 < ?q" by (rule two_powi_pos)
  have r: "rnd x = of_int (rhe (x / ?q)) * ?q"
    using False by (simp add: rnd_def)
  have "rnd x - x = (of_int (rhe (x / ?q)) - x / ?q) * ?q"
    using q by (simp add: r algebra_simps)
  then have "\<bar>rnd x - x\<bar> = \<bar>of_int (rhe (x / ?q)) - x / ?q\<bar> * ?q"
    using q by (simp add: abs_mult)
  also have "\<dots> \<le> (1 / 2) * ?q"
  proof (rule mult_right_mono)
    show "\<bar>of_int (rhe (x / ?q)) - x / ?q\<bar> \<le> 1 / 2"
      using rhe_upper [of "x / ?q"] rhe_lower [of "x / ?q"] by linarith
    show "0 \<le> ?q" using q by simp
  qed
  also have "\<dots> = 2 powi (quantum x - 1)"
    by (simp add: power_int_diff)
  also have "\<dots> \<le> \<bar>x\<bar> * 2 powi (- 53) + 2 powi (- 1075)"
  proof (cases "- 1074 \<le> ilog2 \<bar>x\<bar> - 52")
    case True
    then have "quantum x - 1 = ilog2 \<bar>x\<bar> + (- 53)" by (simp add: quantum_def)
    then have "(2::rat) powi (quantum x - 1) = 2 powi (ilog2 \<bar>x\<bar> + (- 53))"
      by (simp only:)
    also have "\<dots> = 2 powi ilog2 \<bar>x\<bar> * 2 powi (- 53)"
      by (rule power_int_add) simp
    also have "\<dots> \<le> \<bar>x\<bar> * 2 powi (- 53)"
      by (rule mult_right_mono) (use ilog2_bounds [OF ax] two_powi_pos [of "- 53"] in simp_all)
    finally show ?thesis using two_powi_pos [of "- 1075"] by linarith
  next
    case False
    then have "quantum x - 1 = - 1075" by (simp add: quantum_def)
    then have "(2::rat) powi (quantum x - 1) = 2 powi (- 1075)" by (simp only:)
    moreover have "0 \<le> \<bar>x\<bar> * 2 powi (- 53)"
      by (rule mult_nonneg_nonneg) (rule abs_ge_zero, rule less_imp_le [OF two_powi_pos])
    ultimately show ?thesis by linarith
  qed
  finally show ?thesis .
qed


lemma small_le_max_double: "2 ^ 32 \<le> max_double"
  by (simp add: max_double_def)

lemma fl_small:
  assumes "0 \<le> rnd x" "rnd x \<le> 2 ^ 32"
  shows "fl x = Fin (rnd x)"
proof (rule fl_fin)
  show "\<bar>rnd x\<bar> \<le> max_double"
    using assms small_le_max_double by linarith
qed

text \<open>
  The quotient \<open>t / o\<close> of a target dimension and an image dimension, both positive C
  integers, rounds to a float \<open>A\<close> with \<open>o * A \<le> t + 1/2\<close>.
\<close>

lemma quot_bounds:
  fixes t o' :: int
  assumes "0 < o'" "o' < 2 ^ 31" "0 < t" "t < 2 ^ 31"
  shows "0 \<le> rnd (of_int t / of_int o')"
    and "rnd (of_int t / of_int o') \<le> of_int t"
    and "of_int o' * rnd (of_int t / of_int o') \<le> of_int t + 1 / 2"
proof -
  let ?x = "of_int t / of_int o' :: rat"
  have o: "(1::rat) \<le> of_int o'" "(of_int o' :: rat) \<le> 2 ^ 31"
    using assms(1,2) by simp_all
  have t: "(1::rat) \<le> of_int t" "(of_int t :: rat) \<le> 2 ^ 31"
    using assms(3,4) by simp_all
  have opos: "(0::rat) < of_int o'" using o by linarith
  have x0: "0 \<le> ?x" using o t by simp
  show "0 \<le> rnd ?x" using x0 by (rule rnd_nonneg)
  have "?x \<le> of_int t"
    using o t opos by (simp add: pos_divide_le_eq mult_le_cancel_left1)
  then have "rnd ?x \<le> rnd (of_int t)" by (rule rnd_mono)
  also have "rnd (of_int t) = of_int t"
    using rnd_fix [of t 0] assms(3,4) by simp
  finally show "rnd ?x \<le> of_int t" .
  have "(2::rat) powi (- 1022) \<le> 2 powi (- 31)" by (rule two_powi_le) simp
  also have "(2::rat) powi (- 31) = 1 / 2 ^ 31" by (simp add: power_int_minus_divide)
  also have "\<dots> \<le> ?x"
    using o t opos by (simp add: field_simps)
  finally have "rnd ?x \<le> ?x * (1 + 2 powi (- 53))" by (rule rnd_upper_err)
  then have "of_int o' * rnd ?x \<le> of_int o' * (?x * (1 + 2 powi (- 53)))"
    by (rule mult_left_mono) (rule less_imp_le [OF opos])
  also have "\<dots> = of_int t + of_int t * 2 powi (- 53)"
    using opos by (simp add: algebra_simps)
  also have "of_int t * (2::rat) powi (- 53) \<le> 2 ^ 31 * 2 powi (- 53)"
    by (rule mult_right_mono [OF t(2)]) (rule less_imp_le [OF two_powi_pos])
  also have "(2 ^ 31 * 2 powi (- 53) :: rat) \<le> 1 / 2" by simp
  finally show "of_int o' * rnd ?x \<le> of_int t + 1 / 2" by simp
qed

text \<open>
  With a scale \<open>S\<close> of at most that float and a factor \<open>r\<close> in \<open>(0, 1]\<close>, both products
  of line 65 (and of line 66) are finite floats between 0 and \<open>t + 1/2\<close>.
\<close>

lemma dim_chain:
  fixes t o' :: int
  assumes "0 < o'" "o' < 2 ^ 31" "0 < t" "t < 2 ^ 31"
    and "0 \<le> S" "S \<le> rnd (of_int t / of_int o')" "0 < r" "r \<le> 1"
  shows "0 \<le> rnd (of_int o' * S)"
    and "rnd (of_int o' * S) \<le> of_int t + 1 / 2"
    and "0 \<le> rnd (rnd (of_int o' * S) * r)"
    and "rnd (rnd (of_int o' * S) * r) \<le> of_int t + 1 / 2"
proof -
  let ?V = "rnd (of_int o' * S)"
  have opos: "(0::rat) < of_int o'" using assms(1) by simp
  have half: "rnd (of_int t + 1 / 2) = of_int t + 1 / 2"
  proof -
    have "rnd (of_int (2 * t + 1) * 2 powi (- 1)) = of_int (2 * t + 1) * 2 powi (- 1)"
      by (rule rnd_fix) (use assms(3,4) in simp_all)
    then show ?thesis by (simp add: power_int_minus_divide add_divide_distrib)
  qed
  have "of_int o' * S \<le> of_int o' * rnd (of_int t / of_int o')"
    by (rule mult_left_mono [OF assms(6)]) (rule less_imp_le [OF opos])
  also have "\<dots> \<le> of_int t + 1 / 2"
    by (rule quot_bounds(3) [OF assms(1-4)])
  finally have le: "of_int o' * S \<le> of_int t + 1 / 2" .
  have "0 \<le> of_int o' * S" using opos assms(5) by simp
  then show V0: "0 \<le> ?V" by (rule rnd_nonneg)
  show V1: "?V \<le> of_int t + 1 / 2"
    using rnd_mono [OF le] by (simp only: half)
  have "0 \<le> ?V * r" using V0 assms(7) by simp
  then show "0 \<le> rnd (?V * r)" by (rule rnd_nonneg)
  have "?V * r \<le> ?V * 1"
    by (rule mult_left_mono [OF assms(8) V0])
  with V1 have "?V * r \<le> of_int t + 1 / 2" by simp
  then show "rnd (?V * r) \<le> of_int t + 1 / 2"
    using rnd_mono [of "?V * r" "of_int t + 1 / 2"] by (simp only: half)
qed

lemma target_half_small:
  fixes t :: int
  assumes "t < 2 ^ 31"
  shows "(of_int t + 1 / 2 :: rat) \<le> 2 ^ 32"
proof -
  have "(of_int t :: rat) \<le> 2 ^ 31" using assms by simp
  then show ?thesis by simp
qed

lemma trunc_bounds:
  assumes "0 \<le> q" "q \<le> of_int t + 1 / 2"
  shows "0 \<le> trunc q" and "trunc q \<le> t"
proof -
  show "0 \<le> trunc q" using assms(1) by (simp add: trunc_def)
  have "q < of_int (t + 1)" using assms(2) by simp
  then have "\<lfloor>q\<rfloor> < t + 1" by (simp only: floor_less_iff)
  then show "trunc q \<le> t" using assms(1) by (simp add: trunc_def)
qed

lemma py_truediv_valid:
  fixes t o' :: int
  assumes "0 < o'" "o' < 2 ^ 31" "0 < t" "t < 2 ^ 31"
  shows "fl (of_int t / of_int o') = Fin (rnd (of_int t / of_int o'))"
    and "py_truediv t o' = Inr (Fin (rnd (of_int t / of_int o')))"
proof -
  have "(of_int t :: rat) \<le> 2 ^ 32" using assms(4) by simp
  with quot_bounds(2) [OF assms] have "rnd (of_int t / of_int o') \<le> 2 ^ 32" by linarith
  with quot_bounds(1) [OF assms] show f: "fl (of_int t / of_int o') = Fin (rnd (of_int t / of_int o'))"
    by (rule fl_small)
  show "py_truediv t o' = Inr (Fin (rnd (of_int t / of_int o')))"
    using assms(1) by (simp add: py_truediv_def f)
qed

lemma py_float_valid:
  fixes o' :: int
  assumes "0 < o'" "o' < 2 ^ 31"
  shows "py_float o' = Inr (Fin (of_int o'))"
proof -
  have "\<bar>o'\<bar> < 2 ^ 53" using assms by simp
  then show ?thesis by (simp add: py_float_def fl_of_int)
qed

lemma scaled_dim_valid:
  fixes t o' :: int
  assumes "0 < o'" "o' < 2 ^ 31" "0 < t" "t < 2 ^ 31"
    and "0 \<le> S" "S \<le> rnd (of_int t / of_int o')" "0 < r" "r \<le> 1"
  shows "py_int_mul_float o' (Fin S) = Inr (Fin (rnd (of_int o' * S)))"
    and "fmul (Fin (rnd (of_int o' * S))) (Fin r) = Fin (rnd (rnd (of_int o' * S) * r))"
    and "fmul (fmul (fl (of_int o')) (Fin S)) (Fin r) = Fin (rnd (rnd (of_int o' * S) * r))"
    and "fl (rnd (of_int o' * S) * r) = Fin (rnd (rnd (of_int o' * S) * r))"
proof -
  note c = dim_chain [OF assms]
  note small = target_half_small [OF assms(4)]
  have 1: "fl (of_int o' * S) = Fin (rnd (of_int o' * S))"
    by (rule fl_small [OF c(1)]) (use c(2) small in linarith)
  have 2: "fl (rnd (of_int o' * S) * r) = Fin (rnd (rnd (of_int o' * S) * r))"
    by (rule fl_small [OF c(3)]) (use c(4) small in linarith)
  have 3: "fl (of_int o') = Fin (of_int o')"
    by (rule fl_of_int) (use assms(1,2) in simp)
  show "py_int_mul_float o' (Fin S) = Inr (Fin (rnd (of_int o' * S)))"
    by (simp add: py_int_mul_float_def py_float_valid [OF assms(1,2)] 1)
  show "fmul (Fin (rnd (of_int o' * S))) (Fin r) = Fin (rnd (rnd (of_int o' * S) * r))"
    by (simp add: 2)
  show "fmul (fmul (fl (of_int o')) (Fin S)) (Fin r) = Fin (rnd (rnd (of_int o' * S) * r))"
    by (simp add: 1 2 3)
  show "fl (rnd (of_int o' * S) * r) = Fin (rnd (rnd (of_int o' * S) * r))"
    by (rule 2)
qed

text \<open>
  For a valid configuration and an image of positive size, lines 64 to 66 raise nothing:
  the scale is the float nearest to the exact minimum of the two quotients, and each new
  dimension is the truncated product, rounded after each multiplication.
\<close>

lemma new_size_valid:
  fixes ow oh :: int
  assumes "0 < ow" "ow < 2 ^ 31" "0 < oh" "oh < 2 ^ 31"
    and "0 < target_width self" "target_width self < 2 ^ 31"
    and "0 < target_height self" "target_height self < 2 ^ 31"
    and "roi_scale self = Fin r" "0 < r" "r \<le> 1"
  obtains S where
    "float_scale (target_width self) (target_height self) ow oh = Fin S"
    "0 \<le> S"
    "S \<le> rnd (of_int (target_width self) / of_int ow)"
    "S \<le> rnd (of_int (target_height self) / of_int oh)"
    "new_size self (ow, oh) =
       Inr (trunc (rnd (rnd (of_int ow * S) * r)), trunc (rnd (rnd (of_int oh * S) * r)))"
    "S = rnd (min (of_int (target_width self) / of_int ow) (of_int (target_height self) / of_int oh))"
proof -
  let ?tw = "target_width self" and ?th = "target_height self"
  let ?a = "of_int ?tw / of_int ow :: rat" and ?b = "of_int ?th / of_int oh :: rat"
  let ?A = "rnd ?a" and ?B = "rnd ?b"
  define S where "S = (if ?B < ?A then ?B else ?A)"
  note a = py_truediv_valid [OF assms(1,2,5,6)]
  note b = py_truediv_valid [OF assms(3,4,7,8)]
  have A0: "0 \<le> ?A" by (rule quot_bounds(1) [OF assms(1,2,5,6)])
  have B0: "0 \<le> ?B" by (rule quot_bounds(1) [OF assms(3,4,7,8)])
  have S0: "0 \<le> S" using A0 B0 by (simp add: S_def)
  have SA: "S \<le> ?A" by (simp add: S_def)
  have SB: "S \<le> ?B" by (simp add: S_def)
  have m: "py_min (Fin ?A) (Fin ?B) = Fin S"
    by (simp add: py_min_def S_def)
  note w = scaled_dim_valid [OF assms(1,2,5,6) S0 SA assms(10,11)]
  note h = scaled_dim_valid [OF assms(3,4,7,8) S0 SB assms(10,11)]
  have sc: "float_scale ?tw ?th ow oh = Fin S"
    by (simp add: float_scale_def a(1) b(1) m)
  have ns: "new_size self (ow, oh) =
       Inr (trunc (rnd (rnd (of_int ow * S) * r)), trunc (rnd (rnd (of_int oh * S) * r)))"
    by (simp add: new_size_def a(2) b(2) m w(1,4) h(1,4) assms(9))
  have ex: "S = rnd (min ?a ?b)"
  proof (cases "?a \<le> ?b")
    case True
    then have "?A \<le> ?B" by (rule rnd_mono)
    then have "S = ?A" by (simp add: S_def)
    moreover from True have "min ?a ?b = ?a" by (simp add: min_def)
    ultimately show ?thesis by (simp only:)
  next
    case False
    then have le: "?b \<le> ?a" by simp
    then have BA: "?B \<le> ?A" by (rule rnd_mono)
    have "S = ?B"
    proof (cases "?B < ?A")
      case True then show ?thesis by (simp add: S_def)
    next
      case False
      with BA have "?B = ?A" by simp
      then show ?thesis by (simp add: S_def)
    qed
    moreover from False have "min ?a ?b = ?b" by (simp add: min_def)
    ultimately show ?thesis by (simp only:)
  qed
  from sc S0 SA SB ns ex show ?thesis by (rule that)
qed

subsection \<open>Resizing, the canvas and the paste\<close>

lemma Image_resize_size:
  assumes "Image_resize env im sz = Inr r"
  shows "size_of r = sz"
proof -
  obtain w h where sz: "sz = (w, h)" by (cases sz)
  show ?thesis
    using assms unfolding sz Image_resize_def
    by (auto simp: size_of_def split: if_splits)
qed

lemma same_size_image:
  assumes "size_of im = (w, h)"
  shows "im = \<lparr>width = nat w, height = nat h, raster = raster im\<rparr>"
  using assms by (cases im) (auto simp: size_of_def)

lemma Image_resize_Inr:
  assumes "Image_resize env im (w, h) = Inr r"
  shows "r = \<lparr>width = nat w, height = nat h,
              raster = (if size_of im = (w, h) then raster im
                        else resample env im (nat w, nat h))\<rparr>"
    and "memory env (For_resize im (w, h))"
    and "size_of im = (w, h) \<or> 1 \<le> w \<and> 1 \<le> h"
proof -
  show "r = \<lparr>width = nat w, height = nat h,
              raster = (if size_of im = (w, h) then raster im
                        else resample env im (nat w, nat h))\<rparr>"
  proof (cases "size_of im = (w, h)")
    case True
    with assms have "r = im" by (simp add: Image_resize_def split: if_splits)
    with same_size_image [OF True] True show ?thesis by simp
  next
    case False
    with assms show ?thesis by (simp add: Image_resize_def split: if_splits)
  qed
  show "memory env (For_resize im (w, h))"
    using assms by (simp add: Image_resize_def split: if_splits)
  show "size_of im = (w, h) \<or> 1 \<le> w \<and> 1 \<le> h"
    using assms by (simp add: Image_resize_def split: if_splits)
qed

lemma Image_resize_ok:
  assumes "1 \<le> w" "w \<le> max_width" "1 \<le> h" "h < 2 ^ 31"
    and "memory env (For_resize im (w, h))"
  shows "Image_resize env im (w, h) =
     Inr \<lparr>width = nat w, height = nat h,
          raster = (if size_of im = (w, h) then raster im
                    else resample env im (nat w, nat h))\<rparr>"
proof (cases "size_of im = (w, h)")
  case True
  then have "Image_resize env im (w, h) = Inr im"
    using assms(5) by (simp add: Image_resize_def)
  with same_size_image [OF True] True show ?thesis by simp
next
  case False
  have "c_int w" "c_int h" using assms(1-4) by (simp_all add: c_int_def max_width_def)
  with False assms show ?thesis by (simp add: Image_resize_def)
qed

lemma Image_resize_small:
  assumes "0 < width im" "0 < height im" "c_int w" "c_int h" "w < 1 \<or> h < 1"
  shows "Image_resize env im (w, h) = Inl ValueError"
  using assms by (auto simp: Image_resize_def size_of_def)

lemma Image_resize_Inl:
  assumes "Image_resize env im (w, h) = Inl e"
  shows "e = OverflowError \<or> e = ValueError \<or>
         e = MemoryError \<and> (size_of im = (w, h) \<or> 1 \<le> w \<and> 1 \<le> h)"
  using assms by (auto simp: Image_resize_def split: if_splits)


lemma Image_new_RGB_Inr:
  assumes "Image_new_RGB env (w, h) c = Inr canvas"
  shows "canvas = \<lparr>width = nat w, height = nat h, raster = RGB (\<lambda>p. c)\<rparr>"
    and "0 \<le> w" and "0 \<le> h"
  using assms by (auto simp: Image_new_RGB_def split: if_splits)

lemma Image_new_RGB_valid:
  assumes "0 \<le> w" "w \<le> max_width" "0 \<le> h" "h < 2 ^ 31" "memory env (For_new (w, h))"
  shows "Image_new_RGB env (w, h) c =
    Inr \<lparr>width = nat w, height = nat h, raster = RGB (\<lambda>p. c)\<rparr>"
  using assms by (simp add: Image_new_RGB_def c_int_def max_width_def)



lemma Image_new_RGB_Inl:
  assumes "Image_new_RGB env (w, h) c = Inl e"
  shows "e = OverflowError \<or> e = ValueError \<or> e = MemoryError \<and> 0 \<le> w \<and> 0 \<le> h"
  using assms by (auto simp: Image_new_RGB_def split: if_splits)

lemma Image_paste_RGB:
  "Image_paste env \<lparr>width = w, height = h, raster = RGB f\<rparr> im box =
     (if (mode im = Mode_1 \<or> mode im = Mode_L) \<and> \<not> memory env (For_convert (size_of im))
      then Inl MemoryError
      else Inr \<lparr>width = w, height = h, raster = RGB (\<lambda>p.
        if in_region box (size_of im) p
        then raster_to_RGB (raster im) (fst p - fst box, snd p - snd box) else f p)\<rparr>)"
  by (simp add: Image_paste_def)

lemma Image_paste_RGB_Inr:
  assumes "Image_paste env \<lparr>width = w, height = h, raster = RGB f\<rparr> im box = Inr out"
  shows "out = \<lparr>width = w, height = h, raster = RGB (\<lambda>p.
        if in_region box (size_of im) p
        then raster_to_RGB (raster im) (fst p - fst box, snd p - snd box) else f p)\<rparr>"
  using assms by (simp add: Image_paste_RGB split: if_splits)


lemma Image_paste_RGB_ok:
  assumes "memory env (For_convert (size_of im))"
  shows "Image_paste env \<lparr>width = w, height = h, raster = RGB f\<rparr> im box =
     Inr \<lparr>width = w, height = h, raster = RGB (\<lambda>p.
        if in_region box (size_of im) p
        then raster_to_RGB (raster im) (fst p - fst box, snd p - snd box) else f p)\<rparr>"
  using assms by (simp add: Image_paste_RGB)

lemma white_pixel: "raster_pixel (RGB (\<lambda>p. if P p then g p else white)) p = Band3 255 255 255"
  if "\<not> P p"
  using that by (simp add: white_def)

text \<open>What a successful run of \<open>extend_image\<close> went through.\<close>

lemma extend_image_Inr:
  assumes "extend_image env self img = Inr out"
  obtains nsz resized where
    "new_size self (size_of img) = Inr nsz"
    "Image_resize env img nsz = Inr resized"
    "size_of resized = nsz"
    "0 \<le> target_width self" "0 \<le> target_height self"
    "out = \<lparr>width = nat (target_width self), height = nat (target_height self),
            raster = RGB (\<lambda>p.
              if in_region (paste_offset self nsz) nsz p
              then raster_to_RGB (raster resized)
                     (fst p - fst (paste_offset self nsz), snd p - snd (paste_offset self nsz))
              else white)\<rparr>"
proof -
  from assms obtain nsz where 1: "new_size self (size_of img) = Inr nsz"
    by (auto simp: extend_image_def split: sum.splits)
  from assms 1 obtain resized where 2: "Image_resize env img nsz = Inr resized"
    by (auto simp: extend_image_def split: sum.splits)
  from assms 1 2 obtain canvas where
    3: "Image_new_RGB env (target_width self, target_height self) white = Inr canvas"
    by (auto simp: extend_image_def split: sum.splits)
  note c = Image_new_RGB_Inr [OF 3]
  have s: "size_of resized = nsz" using 2 by (rule Image_resize_size)
  have "Image_paste env canvas resized (paste_offset self nsz) = Inr out"
    using assms by (simp add: extend_image_def 1 2 3)
  then have "out = \<lparr>width = nat (target_width self), height = nat (target_height self),
            raster = RGB (\<lambda>p.
              if in_region (paste_offset self nsz) nsz p
              then raster_to_RGB (raster resized)
                     (fst p - fst (paste_offset self nsz), snd p - snd (paste_offset self nsz))
              else white)\<rparr>"
    unfolding c(1) s [symmetric] by (rule Image_paste_RGB_Inr)
  with 1 2 s c(2,3) show ?thesis by (rule that)
qed

text \<open>A run of \<open>extend_image\<close> in which nothing fails.\<close>

lemma extend_image_ok:
  assumes n: "new_size self (size_of img) = Inr (nw, nh)"
    and "1 \<le> nw" "nw \<le> target_width self" "1 \<le> nh" "nh < 2 ^ 31"
    and "target_width self \<le> max_width" "0 \<le> target_height self" "target_height self < 2 ^ 31"
    and "memory env (For_resize img (nw, nh))"
    and "memory env (For_new (target_width self, target_height self))"
    and "memory env (For_convert (nw, nh))"
  shows "extend_image env self img =
    Inr \<lparr>width = nat (target_width self), height = nat (target_height self),
         raster = RGB (\<lambda>p.
           if in_region (paste_offset self (nw, nh)) (nw, nh) p
           then raster_to_RGB
                  (if size_of img = (nw, nh) then raster img
                   else resample env img (nat nw, nat nh))
                  (fst p - fst (paste_offset self (nw, nh)),
                   snd p - snd (paste_offset self (nw, nh)))
           else white)\<rparr>"
proof -
  let ?r = "\<lparr>width = nat nw, height = nat nh,
          raster = (if size_of img = (nw, nh) then raster img
                    else resample env img (nat nw, nat nh))\<rparr>"
  have w: "nw \<le> max_width" using assms(3,6) by simp
  have r: "Image_resize env img (nw, nh) = Inr ?r"
    using assms(2) w assms(4,5,9) by (rule Image_resize_ok)
  have sr: "size_of ?r = (nw, nh)" using assms(2,4) by (simp add: size_of_def)
  have t0: "0 \<le> target_width self" using assms(2,3) by simp
  have c: "Image_new_RGB env (target_width self, target_height self) white =
      Inr \<lparr>width = nat (target_width self), height = nat (target_height self),
           raster = RGB (\<lambda>p. white)\<rparr>"
    using t0 assms(6,7,8,10) by (rule Image_new_RGB_valid)
  have m: "memory env (For_convert (size_of ?r))" using assms(11) by (simp only: sr)
  have "extend_image env self img =
      Image_paste env \<lparr>width = nat (target_width self), height = nat (target_height self),
           raster = RGB (\<lambda>p. white)\<rparr> ?r (paste_offset self (nw, nh))"
    by (simp add: extend_image_def n r c)
  also note Image_paste_RGB_ok [OF m]
  finally show ?thesis by (simp only: sr image.simps)
qed



text \<open>A new dimension below 1: \<^verbatim>\<open>resize\<close> raises \<^verbatim>\<open>ValueError\<close>.\<close>

lemma extend_image_small:
  assumes n: "new_size self (size_of img) = Inr (nw, nh)"
    and "0 < width img" "0 < height img" "c_int nw" "c_int nh" "nw < 1 \<or> nh < 1"
  shows "extend_image env self img = Inl ValueError"
  using Image_resize_small [OF assms(2-6), of env] by (simp add: extend_image_def n)

subsection \<open>Runs on concrete inputs\<close>

lemma fl_values:
  "fl 1 = Fin 1" "fl 2 = Fin 2" "fl 3 = Fin 3" "fl 4 = Fin 4" "fl 8 = Fin 8"
  "fl (1 / 2) = Fin (1 / 2)" "fl (3 / 2) = Fin (3 / 2)"
  using fl_of_int [of 1] fl_of_int [of 2] fl_of_int [of 3] fl_of_int [of 4] fl_of_int [of 8]
    fl_half [of 1] fl_half [of 3]
  by simp_all

lemma trunc_values:
  "trunc 1 = 1" "trunc 2 = 2" "trunc 4 = 4" "trunc (1 / 2) = 0" "trunc (3 / 2) = 1"
  using trunc_of_int [of 1] trunc_of_int [of 2] trunc_of_int [of 4]
    trunc_divide [of 1 2] trunc_divide [of 3 2]
  by simp_all

lemma init_fields:
  "target_width (ImageAugmentation_init tw th roi) = tw"
  "target_height (ImageAugmentation_init tw th roi) = th"
  "roi_scale (ImageAugmentation_init tw th (Some x)) = x"
  by (simp_all add: ImageAugmentation_init_def)


lemma new_size_tall:
  "new_size (ImageAugmentation_init 2 2 (Some (Fin 1))) (1, 4) = Inr (0, 2)"
  by (simp add: new_size_def ImageAugmentation_init_def py_truediv_def py_min_def
      py_int_mul_float_def py_float_def fl_values trunc_values)

lemma new_size_square:
  "new_size (ImageAugmentation_init 8 8 (Some (Fin (1 / 2)))) (2, 2) = Inr (4, 4)"
  by (simp add: new_size_def ImageAugmentation_init_def py_truediv_def py_min_def
      py_int_mul_float_def py_float_def fl_values trunc_values)

lemma new_size_3_2:
  "new_size (ImageAugmentation_init 3 3 (Some (Fin (1 / 2)))) (3, 2) = Inr (1, 1)"
  by (simp add: new_size_def ImageAugmentation_init_def py_truediv_def py_min_def
      py_int_mul_float_def py_float_def fl_values trunc_values)

subsection \<open>Claims C10 and C1\<close>

text \<open>
  Claim C10, as stated, fails: \<open>extend_image\<close> does not return an image for every input
  image. For a 1 by 4 image of mode \<^verbatim>\<open>L\<close> and a 2 by 2 target with \<open>roi_scale = 1\<close> the
  new width truncates to 0 and \<^verbatim>\<open>resize\<close> raises \<^verbatim>\<open>ValueError\<close>.
\<close>

theorem extend_image_tall_counterexample:
  "mode (solid_L 1 4 0) = Mode_L \<and>
   extend_image nearest (ImageAugmentation_init 2 2 (Some (Fin 1))) (solid_L 1 4 0)
     = Inl ValueError"
  by (simp add: extend_image_def size_of_def solid_L_def mode_def new_size_tall
      Image_resize_def c_int_def nearest_def)

text \<open>
  Claim C10, amended. For every input image, whatever its colour mode, and every
  configuration: whenever \<open>extend_image\<close> returns an image, that image has mode
  \<^verbatim>\<open>RGB\<close> and the target size, and every pixel of it outside the pasted region (the box
  of the new size at the paste offset) is white.
\<close>

theorem extend_image_RGB_white:
  assumes "extend_image env self img = Inr out"
  shows "mode out = Mode_RGB \<and>
    size_of out = (target_width self, target_height self) \<and>
    (\<exists>nsz. new_size self (size_of img) = Inr nsz \<and>
      (\<forall>p. inside out p \<longrightarrow> \<not> in_region (paste_offset self nsz) nsz p \<longrightarrow>
           pixel_at out p = Some (Band3 255 255 255)))"
proof -
  from assms obtain nsz resized where
    n: "new_size self (size_of img) = Inr nsz" and
    rz: "Image_resize env img nsz = Inr resized" and
    rs: "size_of resized = nsz" and
    t: "0 \<le> target_width self" "0 \<le> target_height self" and
    out: "out = \<lparr>width = nat (target_width self), height = nat (target_height self),
            raster = RGB (\<lambda>p.
              if in_region (paste_offset self nsz) nsz p
              then raster_to_RGB (raster resized)
                     (fst p - fst (paste_offset self nsz), snd p - snd (paste_offset self nsz))
              else white)\<rparr>"
    by (rule extend_image_Inr)
  have m: "mode out = Mode_RGB" by (simp add: out mode_def)
  have s: "size_of out = (target_width self, target_height self)"
    using t by (simp add: out size_of_def)
  have w: "pixel_at out p = Some (Band3 255 255 255)"
    if "inside out p" "\<not> in_region (paste_offset self nsz) nsz p" for p
  proof -
    have "raster_pixel (raster out) p = Band3 255 255 255"
      unfolding out using that(2) by (simp add: white_def)
    with that(1) show ?thesis by (simp add: pixel_at_def)
  qed
  from m s n w show ?thesis by blast
qed

text \<open>
  The theorem at a 2 by 2 image of mode \<^verbatim>\<open>L\<close>, an 8 by 8 target and \<open>roi_scale = 1/2\<close>:
  the image is resized to 4 by 4 and pasted at (2, 2); the corner pixel stays white.
\<close>

theorem extend_image_RGB_white_witness:
  "\<exists>out. extend_image nearest (ImageAugmentation_init 8 8 (Some (Fin (1 / 2)))) (solid_L 2 2 7)
      = Inr out \<and>
     mode out = Mode_RGB \<and> size_of out = (8, 8) \<and>
     pixel_at out (0, 0) = Some (Band3 255 255 255)"
proof -
  let ?self = "ImageAugmentation_init 8 8 (Some (Fin (1 / 2)))"
  have sz: "size_of (solid_L 2 2 7) = (2, 2)" by (simp add: size_of_def solid_L_def)
  have tw: "target_width ?self = 8" "target_height ?self = 8"
    by (simp_all add: init_fields)
  obtain out where e: "extend_image nearest ?self (solid_L 2 2 7) = Inr out"
    by (simp add: extend_image_def sz new_size_square Image_resize_def c_int_def
        Image_new_RGB_def Image_paste_def max_width_def nearest_def tw)
  from extend_image_RGB_white [OF e] have
    m: "mode out = Mode_RGB" and s: "size_of out = (8, 8)" and
    w: "\<forall>p. inside out p \<longrightarrow> \<not> in_region (paste_offset ?self (4, 4)) (4, 4) p \<longrightarrow>
           pixel_at out p = Some (Band3 255 255 255)"
    by (simp_all add: sz new_size_square tw)
  have i: "inside out (0, 0)"
    using s by (simp add: inside_def size_of_def)
  have r: "\<not> in_region (paste_offset ?self (4, 4)) (4, 4) (0, 0)"
    by (simp add: in_region_def paste_offset_def tw)
  from w i r have "pixel_at out (0, 0) = Some (Band3 255 255 255)" by blast
  with e m s show ?thesis by blast
qed




text \<open>
  Pillow's limit on the width: a 1 by 1 image and a target of \<open>2^29 = 536870912\<close> by 1 with
  \<open>roi_scale = 1\<close> give the new size (1, 1), and creating the canvas raises
  \<^verbatim>\<open>MemoryError\<close>, however much memory there is.
\<close>

lemma new_size_unit:
  "new_size (ImageAugmentation_init 536870912 1 (Some (Fin 1))) (1, 1) = Inr (1, 1)"
proof -
  have f: "fl 536870912 = Fin 536870912" using fl_of_int [of 536870912] by simp
  show ?thesis
    by (simp add: new_size_def ImageAugmentation_init_def py_truediv_def py_min_def
        py_int_mul_float_def py_float_def fl_values trunc_values f)
qed

lemma extend_image_canvas_too_wide:
  "extend_image nearest (ImageAugmentation_init 536870912 1 (Some (Fin 1))) (solid_RGB 1 1 white)
     = Inl MemoryError"
proof -
  have sz: "size_of (solid_RGB (Suc 0) (Suc 0) white) = (1, 1)"
    by (simp add: size_of_def solid_RGB_def)
  show ?thesis
    by (simp add: extend_image_def sz new_size_unit Image_resize_def Image_new_RGB_def
        c_int_def max_width_def nearest_def init_fields)
qed

subsection \<open>Claim C4: zero and non-positive dimensions\<close>

lemma fl_FinD: "fl x = Fin q \<Longrightarrow> q = rnd x"
  by (auto simp: fl_def Let_def split: if_splits)

lemma fl_cases: "fl x = Fin (rnd x) \<or> fl x = PInf \<or> fl x = NInf"
  by (auto simp: fl_def Let_def)

lemma py_truediv_Inr:
  assumes "py_truediv a b = Inr x"
  shows "b \<noteq> 0" and "x = Fin (rnd (of_int a / of_int b))"
  using assms fl_cases [of "of_int a / of_int b"]
  by (auto simp: py_truediv_def split: if_splits)

lemma py_truediv_Inl:
  "py_truediv a b = Inl e \<Longrightarrow> e = ZeroDivisionError \<or> e = OverflowError"
  by (auto simp: py_truediv_def split: if_splits pyfloat.splits)

lemma py_float_Inr: "py_float n = Inr x \<Longrightarrow> x = Fin (rnd (of_int n))"
  using fl_cases [of "of_int n"] by (auto simp: py_float_def)

lemma py_int_mul_float_Inr:
  assumes "py_int_mul_float n x = Inr y"
  shows "y = fmul (Fin (rnd (of_int n))) x"
  using assms by (auto simp: py_int_mul_float_def split: sum.splits dest: py_float_Inr)

lemma py_int_mul_float_Inl: "py_int_mul_float n x = Inl e \<Longrightarrow> e = OverflowError"
  by (auto simp: py_int_mul_float_def py_float_def split: sum.splits pyfloat.splits)

lemma py_int_Inl: "py_int x = Inl e \<Longrightarrow> e = OverflowError \<or> e = ValueError"
  by (cases x) auto

text \<open>The steps of lines 64 to 66, when none of them raises.\<close>

lemma new_size_Inr:
  assumes "new_size self (ow, oh) = Inr (nw, nh)"
  obtains S where
    "ow \<noteq> 0" "oh \<noteq> 0"
    "py_min (Fin (rnd (of_int (target_width self) / of_int ow)))
            (Fin (rnd (of_int (target_height self) / of_int oh))) = S"
    "py_int (fmul (fmul (Fin (rnd (of_int ow))) S) (roi_scale self)) = Inr nw"
    "py_int (fmul (fmul (Fin (rnd (of_int oh))) S) (roi_scale self)) = Inr nh"
proof -
  from assms obtain a where a: "py_truediv (target_width self) ow = Inr a"
    by (auto simp: new_size_def split: sum.splits)
  from assms a obtain b where b: "py_truediv (target_height self) oh = Inr b"
    by (auto simp: new_size_def split: sum.splits)
  from assms a b obtain xw where xw: "py_int_mul_float ow (py_min a b) = Inr xw"
    by (auto simp: new_size_def Let_def split: sum.splits)
  from assms a b xw have w: "py_int (fmul xw (roi_scale self)) = Inr nw"
    by (auto simp: new_size_def Let_def split: sum.splits)
  from assms a b xw w obtain xh where xh: "py_int_mul_float oh (py_min a b) = Inr xh"
    by (auto simp: new_size_def Let_def split: sum.splits)
  from assms a b xw w xh have h: "py_int (fmul xh (roi_scale self)) = Inr nh"
    by (auto simp: new_size_def Let_def split: sum.splits)
  note ea = py_truediv_Inr [OF a] and eb = py_truediv_Inr [OF b]
  show ?thesis
  proof (rule that [of "py_min a b"])
    show "ow \<noteq> 0" by (rule ea(1))
    show "oh \<noteq> 0" by (rule eb(1))
    show "py_min (Fin (rnd (of_int (target_width self) / of_int ow)))
            (Fin (rnd (of_int (target_height self) / of_int oh))) = py_min a b"
      by (simp only: ea(2) eb(2))
    show "py_int (fmul (fmul (Fin (rnd (of_int ow))) (py_min a b)) (roi_scale self)) = Inr nw"
      using w by (simp only: py_int_mul_float_Inr [OF xw])
    show "py_int (fmul (fmul (Fin (rnd (of_int oh))) (py_min a b)) (roi_scale self)) = Inr nh"
      using h by (simp only: py_int_mul_float_Inr [OF xh])
  qed
qed

lemma new_size_Inl:
  assumes "new_size self sz = Inl e"
  shows "e = ZeroDivisionError \<or> e = OverflowError \<or> e = ValueError"
proof -
  obtain ow oh where sz: "sz = (ow, oh)" by (cases sz)
  show ?thesis
    using assms unfolding sz new_size_def Let_def
    by (auto split: sum.splits
        dest: py_truediv_Inl py_int_mul_float_Inl py_int_Inl)
qed

lemma new_size_Inl_pos:
  assumes "new_size self (ow, oh) = Inl e" "ow \<noteq> 0" "oh \<noteq> 0"
  shows "e = OverflowError \<or> e = ValueError"
  using assms unfolding new_size_def Let_def
  by (auto simp: py_truediv_def split: sum.splits if_splits pyfloat.splits
      dest: py_int_mul_float_Inl py_int_Inl)

text \<open>With a target dimension that is zero, the other not negative, the new width is 0.\<close>

lemma zero_times_roi:
  assumes "py_int (fmul (fmul (Fin F) (Fin 0)) roi) = Inr n"
  shows "n = 0"
proof -
  have "fmul (Fin F) (Fin 0) = Fin 0" by (simp add: fl_0)
  with assms have "py_int (fmul (Fin 0) roi) = Inr n" by simp
  then show ?thesis
    by (cases roi) (simp_all add: fl_0 trunc_def)
qed

lemma new_size_zero_target:
  assumes "new_size self (ow, oh) = Inr (nw, nh)"
    and "0 < ow" "0 < oh"
    and "0 \<le> target_width self" "0 \<le> target_height self"
    and "target_width self = 0 \<or> target_height self = 0"
  shows "nw = 0"
proof -
  let ?A = "rnd (of_int (target_width self) / of_int ow)"
  let ?B = "rnd (of_int (target_height self) / of_int oh)"
  from assms(1) obtain S where
    S: "py_min (Fin ?A) (Fin ?B) = S" and
    w: "py_int (fmul (fmul (Fin (rnd (of_int ow))) S) (roi_scale self)) = Inr nw"
    by (rule new_size_Inr)
  have A0: "0 \<le> ?A" by (rule rnd_nonneg) (use assms(2,4) in simp)
  have B0: "0 \<le> ?B" by (rule rnd_nonneg) (use assms(3,5) in simp)
  have "?A = 0 \<or> ?B = 0" using assms(6) by (auto simp: rnd_0)
  with A0 B0 have "S = Fin 0"
    unfolding S [symmetric] py_min_def by auto
  with w show ?thesis by (simp only: zero_times_roi)
qed

text \<open>
  With a target dimension that is not positive the scale is not positive, and the new
  width can be positive only if \<open>roi_scale\<close> is negative.
\<close>

lemma rnd_nonpos:
  assumes "x \<le> 0"
  shows "rnd x \<le> 0"
proof -
  have "0 \<le> rnd (- x)" by (rule rnd_nonneg) (use assms in simp)
  then show ?thesis by (simp add: rnd_minus)
qed

lemma fl_nonpos:
  assumes "x \<le> 0"
  shows "(\<exists>q. fl x = Fin q \<and> q \<le> 0) \<or> fl x = NInf"
proof -
  have r: "rnd x \<le> 0" using assms by (rule rnd_nonpos)
  have "0 < max_double" by (simp add: max_double_def)
  with r have "\<not> max_double < rnd x" by linarith
  with r show ?thesis by (auto simp: fl_def Let_def)
qed

lemma trunc_nonpos:
  assumes "q \<le> 0"
  shows "trunc q \<le> 0"
proof (cases "0 \<le> q")
  case True
  with assms have "q = 0" by simp
  then show ?thesis by (simp add: trunc_def)
next
  case False
  have "\<lceil>q\<rceil> \<le> 0" using assms by (simp add: ceiling_le_iff)
  with False show ?thesis by (simp add: trunc_def)
qed

lemma nonpos_times_roi_Fin:
  assumes "py_int (fmul (Fin q) roi) = Inr n" "q \<le> 0" "1 \<le> n"
  shows "flt roi (Fin 0)"
proof (cases roi)
  case (Fin r)
  show ?thesis
  proof (rule ccontr)
    assume "\<not> flt roi (Fin 0)"
    then have r: "0 \<le> r" by (simp add: Fin)
    have "q * r \<le> 0" using assms(2) r by (simp add: mult_le_0_iff)
    from fl_nonpos [OF this] show False
    proof
      assume "\<exists>p. fl (q * r) = Fin p \<and> p \<le> 0"
      then obtain p where p: "fl (q * r) = Fin p" "p \<le> 0" by blast
      with assms(1) have "n = trunc p" by (simp add: Fin)
      with trunc_nonpos [OF p(2)] assms(3) show False by simp
    next
      assume "fl (q * r) = NInf"
      with assms(1) show False by (simp add: Fin)
    qed
  qed
next
  case PInf
  with assms(1) show ?thesis by (simp split: if_splits)
next
  case NInf
  then show ?thesis by simp
next
  case NaN
  with assms(1) show ?thesis by simp
qed

lemma nonpos_times_roi_NInf:
  assumes "py_int (fmul NInf roi) = Inr n"
  shows "flt roi (Fin 0)"
  using assms by (cases roi) (simp_all split: if_splits)

lemma nonpos_times_roi:
  assumes "py_int (fmul (fmul (Fin F) (Fin s)) roi) = Inr n" "0 \<le> F" "s \<le> 0" "1 \<le> n"
  shows "flt roi (Fin 0)"
proof -
  have "F * s \<le> 0" using assms(2,3) by (simp add: mult_le_0_iff)
  from fl_nonpos [OF this] show ?thesis
  proof
    assume "\<exists>q. fl (F * s) = Fin q \<and> q \<le> 0"
    then obtain q where q: "fl (F * s) = Fin q" "q \<le> 0" by blast
    from assms(1) have "py_int (fmul (Fin q) roi) = Inr n" by (simp add: q(1))
    then show ?thesis using q(2) assms(4) by (rule nonpos_times_roi_Fin)
  next
    assume "fl (F * s) = NInf"
    with assms(1) have "py_int (fmul NInf roi) = Inr n" by simp
    then show ?thesis by (rule nonpos_times_roi_NInf)
  qed
qed

lemma new_size_nonpos_target:
  assumes "new_size self (ow, oh) = Inr (nw, nh)"
    and "0 < ow" "0 < oh"
    and "target_width self \<le> 0 \<or> target_height self \<le> 0"
    and "1 \<le> nw"
  shows "flt (roi_scale self) (Fin 0)"
proof -
  let ?A = "rnd (of_int (target_width self) / of_int ow)"
  let ?B = "rnd (of_int (target_height self) / of_int oh)"
  from assms(1) obtain S where
    S: "py_min (Fin ?A) (Fin ?B) = S" and
    w: "py_int (fmul (fmul (Fin (rnd (of_int ow))) S) (roi_scale self)) = Inr nw"
    by (rule new_size_Inr)
  define s where "s = (if ?B < ?A then ?B else ?A)"
  have Ss: "S = Fin s" unfolding S [symmetric] s_def py_min_def by simp
  have "?A \<le> 0 \<or> ?B \<le> 0"
  proof -
    from assms(4) show ?thesis
    proof
      assume "target_width self \<le> 0"
      then have "(of_int (target_width self) / of_int ow :: rat) \<le> 0"
        using assms(2) by (simp add: divide_le_0_iff)
      then have "?A \<le> 0" by (rule rnd_nonpos)
      then show ?thesis ..
    next
      assume "target_height self \<le> 0"
      then have "(of_int (target_height self) / of_int oh :: rat) \<le> 0"
        using assms(3) by (simp add: divide_le_0_iff)
      then have "?B \<le> 0" by (rule rnd_nonpos)
      then show ?thesis ..
    qed
  qed
  then have s0: "s \<le> 0" unfolding s_def by auto
  have F0: "0 \<le> rnd (of_int ow)" by (rule rnd_nonneg) (use assms(2) in simp)
  from w have "py_int (fmul (fmul (Fin (rnd (of_int ow))) (Fin s)) (roi_scale self)) = Inr nw"
    by (simp only: Ss)
  then show ?thesis using F0 s0 assms(5) by (rule nonpos_times_roi)
qed

text \<open>
  With a target dimension that is zero, the other not negative, \<^verbatim>\<open>resize\<close> returns
  no image.
\<close>

lemma resize_zero_target:
  assumes "new_size self (size_of img) = Inr (nw, nh)"
    and "0 \<le> target_width self" "0 \<le> target_height self"
    and "target_width self = 0 \<or> target_height self = 0"
  shows "Image_resize env img (nw, nh) \<noteq> Inr r"
proof
  assume rz: "Image_resize env img (nw, nh) = Inr r"
  from assms(1) have n: "new_size self (int (width img), int (height img)) = Inr (nw, nh)"
    by (simp add: size_of_def)
  then have "int (width img) \<noteq> 0" "int (height img) \<noteq> 0"
    by (auto elim: new_size_Inr)
  then have p: "0 < int (width img)" "0 < int (height img)" by simp_all
  from n p assms(2-4) have "nw = 0" by (rule new_size_zero_target)
  with Image_resize_Inr(3) [OF rz] p show False by (simp add: size_of_def)
qed

text \<open>
  Claim C4, as stated, fails on the error kind: the repository defines no
  \<^verbatim>\<open>InvalidDimensions\<close> error and checks no dimension. For an image of width 0 the
  division \<^verbatim>\<open>target_width / original_width\<close> raises \<^verbatim>\<open>ZeroDivisionError\<close>.
\<close>

theorem zero_width_counterexample:
  "width (solid_RGB 0 2 white) = 0 \<and>
   extend_image nearest (ImageAugmentation_init 2 2 (Some (Fin 1))) (solid_RGB 0 2 white)
     = Inl ZeroDivisionError"
  by (simp add: extend_image_def new_size_def py_truediv_def size_of_def solid_RGB_def)

text \<open>
  Claim C4, amended. For every call in which an original dimension is zero or a target
  dimension is not positive, whatever \<open>roi_scale\<close> is, \<open>extend_image\<close> fails and returns
  no image. The error is one of Python's built-in \<^verbatim>\<open>ZeroDivisionError\<close>,
  \<^verbatim>\<open>ValueError\<close> and \<^verbatim>\<open>OverflowError\<close>, or, only when \<open>roi_scale\<close> is negative,
  the \<^verbatim>\<open>MemoryError\<close> of a \<^verbatim>\<open>resize\<close> that does not get its memory; it is
  \<^verbatim>\<open>ZeroDivisionError\<close> when the original width is zero, and never
  \<^verbatim>\<open>ZeroDivisionError\<close> when both original dimensions are positive.
\<close>

theorem extend_image_invalid_dimensions:
  assumes "width img = 0 \<or> height img = 0 \<or> target_width self \<le> 0 \<or> target_height self \<le> 0"
  shows "\<exists>e. extend_image env self img = Inl e \<and>
    (e = ZeroDivisionError \<or> e = ValueError \<or> e = OverflowError \<or>
     e = MemoryError \<and> flt (roi_scale self) (Fin 0)) \<and>
    (width img = 0 \<longrightarrow> e = ZeroDivisionError) \<and>
    (0 < width img \<and> 0 < height img \<longrightarrow> e \<noteq> ZeroDivisionError)"
proof (cases "new_size self (size_of img)")
  case (Inl e)
  then have e: "extend_image env self img = Inl e" by (simp add: extend_image_def)
  have k: "e = ZeroDivisionError \<or> e = ValueError \<or> e = OverflowError"
    using new_size_Inl [OF Inl] by auto
  have z: "e = ZeroDivisionError" if "width img = 0"
    using Inl that by (simp add: new_size_def py_truediv_def size_of_def)
  have nz: "e \<noteq> ZeroDivisionError" if "0 < width img \<and> 0 < height img"
  proof -
    from Inl have "new_size self (int (width img), int (height img)) = Inl e"
      by (simp add: size_of_def)
    from new_size_Inl_pos [OF this] that show ?thesis by auto
  qed
  show ?thesis
  proof (rule exI [of _ e], intro conjI)
    show "extend_image env self img = Inl e" by (rule e)
    show "e = ZeroDivisionError \<or> e = ValueError \<or> e = OverflowError \<or>
      e = MemoryError \<and> flt (roi_scale self) (Fin 0)" using k by blast
    show "width img = 0 \<longrightarrow> e = ZeroDivisionError" using z by (rule impI)
    show "0 < width img \<and> 0 < height img \<longrightarrow> e \<noteq> ZeroDivisionError" using nz by (rule impI)
  qed
next
  case (Inr nsz)
  obtain nw nh where nsz: "nsz = (nw, nh)" by (cases nsz)
  have n: "new_size self (size_of img) = Inr (nw, nh)" using Inr by (simp only: nsz)
  then have n': "new_size self (int (width img), int (height img)) = Inr (nw, nh)"
    by (simp add: size_of_def)
  then have "int (width img) \<noteq> 0" "int (height img) \<noteq> 0"
    by (auto elim: new_size_Inr)
  then have p: "0 < int (width img)" "0 < int (height img)" by simp_all
  with assms have t: "target_width self \<le> 0 \<or> target_height self \<le> 0" by auto
  have zero: "target_width self = 0 \<or> target_height self = 0"
    if "0 \<le> target_width self" "0 \<le> target_height self"
    using t that by auto
  have "\<exists>e. extend_image env self img = Inl e \<and>
    (e = ValueError \<or> e = OverflowError \<or> e = MemoryError \<and> flt (roi_scale self) (Fin 0))"
  proof (cases "Image_resize env img (nw, nh)")
    case (Inl e)
    then have e: "extend_image env self img = Inl e" by (simp add: extend_image_def n)
    from Image_resize_Inl [OF Inl]
    have "e = ValueError \<or> e = OverflowError \<or> e = MemoryError \<and> flt (roi_scale self) (Fin 0)"
    proof (elim disjE conjE)
      assume "e = OverflowError" then show ?thesis by simp
    next
      assume "e = ValueError" then show ?thesis by simp
    next
      assume m: "e = MemoryError" and "size_of img = (nw, nh)"
      then have "1 \<le> nw" using p(1) by (auto simp: size_of_def)
      with n' p t have "flt (roi_scale self) (Fin 0)" by (rule new_size_nonpos_target)
      with m show ?thesis by simp
    next
      assume m: "e = MemoryError" and "1 \<le> nw" "1 \<le> nh"
      with n' p t have "flt (roi_scale self) (Fin 0)" by (intro new_size_nonpos_target)
      with m show ?thesis by simp
    qed
    with e show ?thesis by blast
  next
    case (Inr r)
    have c: "Image_new_RGB env (target_width self, target_height self) white = Inl ValueError"
    proof (cases "0 \<le> target_width self \<and> 0 \<le> target_height self")
      case True
      then have "0 \<le> target_width self" "0 \<le> target_height self" by simp_all
      with n have "Image_resize env img (nw, nh) \<noteq> Inr r"
        by (rule resize_zero_target) (rule zero, fact+)
      with Inr show ?thesis by simp
    next
      case False
      then show ?thesis by (auto simp: Image_new_RGB_def)
    qed
    have "extend_image env self img = Inl ValueError"
      by (simp add: extend_image_def n Inr c)
    then show ?thesis by blast
  qed
  then obtain e where e: "extend_image env self img = Inl e"
    and k: "e = ValueError \<or> e = OverflowError \<or> e = MemoryError \<and> flt (roi_scale self) (Fin 0)"
    by blast
  show ?thesis
  proof (rule exI [of _ e], intro conjI)
    show "extend_image env self img = Inl e" by (rule e)
    show "e = ZeroDivisionError \<or> e = ValueError \<or> e = OverflowError \<or>
      e = MemoryError \<and> flt (roi_scale self) (Fin 0)" using k by blast
    show "width img = 0 \<longrightarrow> e = ZeroDivisionError" using p(1) by simp
    show "0 < width img \<and> 0 < height img \<longrightarrow> e \<noteq> ZeroDivisionError" using k by auto
  qed
qed

text \<open>The theorem at a 2 by 2 image and a target of width 0: \<^verbatim>\<open>resize\<close> raises
  \<^verbatim>\<open>ValueError\<close>.\<close>

theorem extend_image_invalid_dimensions_witness:
  "target_width (ImageAugmentation_init 0 2 (Some (Fin 1))) \<le> 0 \<and>
   (\<exists>e. extend_image nearest (ImageAugmentation_init 0 2 (Some (Fin 1))) (solid_RGB 2 2 white)
      = Inl e \<and> e \<noteq> ZeroDivisionError)"
proof -
  let ?self = "ImageAugmentation_init 0 2 (Some (Fin 1))"
  let ?img = "solid_RGB 2 2 white"
  have h: "width ?img = 0 \<or> height ?img = 0 \<or> target_width ?self \<le> 0 \<or> target_height ?self \<le> 0"
    by (simp add: init_fields)
  have p: "0 < width ?img \<and> 0 < height ?img" by (simp add: solid_RGB_def)
  from extend_image_invalid_dimensions [OF h, of nearest] p show ?thesis
    by (auto simp: init_fields)
qed

subsection \<open>Claim C8: aspect ratio and cropping\<close>

lemma rnd_close:
  assumes "0 \<le> x" "x \<le> 2 ^ 31"
  shows "\<bar>rnd x - x\<bar> \<le> 2 powi (- 22) + 2 powi (- 1075)"
proof -
  have "\<bar>x\<bar> * 2 powi (- 53) \<le> 2 ^ 31 * 2 powi (- 53)"
    by (rule mult_right_mono) (use assms in simp, rule less_imp_le [OF two_powi_pos])
  also have "(2 ^ 31 * 2 powi (- 53) :: rat) = 2 powi (- 22)" by simp
  finally have "\<bar>x\<bar> * 2 powi (- 53) + 2 powi (- 1075) \<le> 2 powi (- 22) + 2 powi (- 1075)"
    by (rule add_right_mono)
  with rnd_abs_err [of x] show ?thesis by (rule order_trans)
qed

lemma tiny: "(2::rat) powi (- 1075) \<le> 2 powi (- 23)"
  by (rule two_powi_le) simp

text \<open>
  The float \<open>fl(fl(o * S) * r)\<close> of lines 65 and 66 is within \<open>2^-20\<close> of the exact
  product \<open>o * S * r\<close>.
\<close>

lemma dim_close:
  fixes t o' :: int
  assumes "0 < o'" "o' < 2 ^ 31" "0 < t" "t < 2 ^ 31"
    and "0 \<le> S" "S \<le> rnd (of_int t / of_int o')" "0 < r" "r \<le> 1"
  shows "\<bar>rnd (rnd (of_int o' * S) * r) - of_int o' * S * r\<bar> \<le> 1 / 2 ^ 20"
proof -
  let ?x = "of_int o' * S" let ?V = "rnd ?x" let ?W = "rnd (?V * r)"
  define d :: rat where "d = 2 powi (- 22) + 2 powi (- 1075)"
  have "d \<le> 2 powi (- 22) + 2 powi (- 23)"
    unfolding d_def by (rule add_left_mono [OF tiny])
  also have "\<dots> \<le> 1 / 2 ^ 21" by simp
  finally have d: "d \<le> 1 / 2 ^ 21" .
  note c = dim_chain [OF assms]
  have t: "(of_int t :: rat) + 1 / 2 \<le> 2 ^ 31"
  proof -
    have "t + 1 \<le> 2 ^ 31" using assms(4) by simp
    then have "(of_int (t + 1) :: rat) \<le> of_int (2 ^ 31)" by (simp only: of_int_le_iff)
    then show ?thesis by simp
  qed
  have opos: "(0::rat) < of_int o'" using assms(1) by simp
  have x0: "0 \<le> ?x" using opos assms(5) by simp
  have "?x \<le> of_int o' * rnd (of_int t / of_int o')"
    by (rule mult_left_mono [OF assms(6)]) (rule less_imp_le [OF opos])
  also have "\<dots> \<le> of_int t + 1 / 2" by (rule quot_bounds(3) [OF assms(1-4)])
  finally have x1: "?x \<le> 2 ^ 31" using t by linarith
  have e1: "\<bar>?V - ?x\<bar> \<le> d"
    unfolding d_def using x0 x1 by (rule rnd_close)
  have v0: "0 \<le> ?V * r" using c(1) assms(7) by simp
  have "?V * r \<le> ?V * 1" by (rule mult_left_mono [OF assms(8) c(1)])
  then have v1: "?V * r \<le> 2 ^ 31" using c(2) t by linarith
  have e2: "\<bar>?W - ?V * r\<bar> \<le> d"
    unfolding d_def using v0 v1 by (rule rnd_close)
  have "\<bar>?V * r - ?x * r\<bar> = \<bar>?V - ?x\<bar> * r"
    using assms(7) by (simp add: abs_mult flip: left_diff_distrib)
  also have "\<dots> \<le> \<bar>?V - ?x\<bar> * 1"
    by (rule mult_left_mono [OF assms(8)]) simp
  also have "\<dots> = \<bar>?V - ?x\<bar>" by simp
  also note e1
  finally have e3: "\<bar>?V * r - ?x * r\<bar> \<le> d" .
  have "\<bar>?W - ?x * r\<bar> = \<bar>(?W - ?V * r) + (?V * r - ?x * r)\<bar>" by simp
  also have "\<dots> \<le> \<bar>?W - ?V * r\<bar> + \<bar>?V * r - ?x * r\<bar>" by (rule abs_triangle_ineq)
  also have "\<dots> \<le> d + d"
    using e2 e3 by (rule add_mono)
  also have "\<dots> \<le> 1 / 2 ^ 20" using d by simp
  finally show ?thesis .
qed

lemma trunc_close:
  assumes "0 \<le> q" "\<bar>q - x\<bar> \<le> 1 / 2 ^ 20"
  shows "\<bar>of_int (trunc q) - x\<bar> < 1 + 1 / 2 ^ 20"
proof -
  have "trunc q = \<lfloor>q\<rfloor>" using assms(1) by (rule trunc_nonneg)
  moreover have "of_int \<lfloor>q\<rfloor> \<le> q" "q < of_int \<lfloor>q\<rfloor> + 1" by linarith+
  ultimately show ?thesis using assms(2) by (simp only:)
qed

text \<open>
  Claim C8, as stated, fails on the aspect ratio: the two new dimensions are truncated
  separately. A 3 by 2 image, a 3 by 3 target and \<open>roi_scale = 1/2\<close> give the scale 1 and
  the new size \<open>(int(1.5), int(1.0)) = (1, 1)\<close>, pasted without error: the ratio 1/1 is
  not 3/2.
\<close>

theorem aspect_ratio_counterexample:
  "new_size (ImageAugmentation_init 3 3 (Some (Fin (1 / 2)))) (size_of (solid_RGB 3 2 white))
     = Inr (1, 1) \<and>
   \<not> isl (extend_image nearest (ImageAugmentation_init 3 3 (Some (Fin (1 / 2))))
            (solid_RGB 3 2 white)) \<and>
   (of_int 1 / of_int 1 :: rat) \<noteq> of_int 3 / of_int 2"
proof -
  have sz: "size_of (solid_RGB 3 2 white) = (3, 2)" by (simp add: size_of_def solid_RGB_def)
  show ?thesis
    by (simp add: sz new_size_3_2 extend_image_def Image_resize_def c_int_def
        Image_new_RGB_def Image_paste_def max_width_def nearest_def init_fields)
qed

text \<open>
  Claim C8, amended. For every input image with positive dimensions and every
  configuration with positive target dimensions and \<open>roi_scale\<close> in \<open>(0, 1]\<close> (all
  dimensions C integers): the new size satisfies \<open>0 \<le> new_w \<le> target_width\<close> and
  \<open>0 \<le> new_h \<le> target_height\<close>, the paste offset is not negative and the pasted region
  lies entirely within the target canvas (no cropping), and the aspect ratio is preserved
  up to the truncation: for the one factor \<open>k = scale * roi_scale\<close>, \<open>new_w\<close> differs from
  \<open>orig_w * k\<close> and \<open>new_h\<close> from \<open>orig_h * k\<close> by less than \<open>1 + 2^-20\<close>.
\<close>

theorem extend_image_no_cropping:
  assumes "0 < width img" "width img < 2 ^ 31" "0 < height img" "height img < 2 ^ 31"
    and "0 < target_width self" "target_width self < 2 ^ 31"
    and "0 < target_height self" "target_height self < 2 ^ 31"
    and "roi_scale self = Fin r" "0 < r" "r \<le> 1"
  shows "\<exists>S nw nh px py.
    float_scale (target_width self) (target_height self) (int (width img)) (int (height img))
      = Fin S \<and>
    new_size self (size_of img) = Inr (nw, nh) \<and>
    paste_offset self (nw, nh) = (px, py) \<and>
    0 \<le> nw \<and> nw \<le> target_width self \<and> 0 \<le> nh \<and> nh \<le> target_height self \<and>
    0 \<le> px \<and> px + nw \<le> target_width self \<and> 0 \<le> py \<and> py + nh \<le> target_height self \<and>
    (\<forall>x y. in_region (px, py) (nw, nh) (x, y) \<longrightarrow>
       0 \<le> x \<and> x < target_width self \<and> 0 \<le> y \<and> y < target_height self) \<and>
    \<bar>of_int nw - of_int (int (width img)) * S * r\<bar> < 1 + 1 / 2 ^ 20 \<and>
    \<bar>of_int nh - of_int (int (height img)) * S * r\<bar> < 1 + 1 / 2 ^ 20"
proof -
  let ?ow = "int (width img)" and ?oh = "int (height img)"
  let ?tw = "target_width self" and ?th = "target_height self"
  have ow: "0 < ?ow" "?ow < 2 ^ 31" and oh: "0 < ?oh" "?oh < 2 ^ 31"
    using assms(1-4) by simp_all
  from new_size_valid [OF ow oh assms(5-11)] obtain S where
    sc: "float_scale ?tw ?th ?ow ?oh = Fin S" and
    S: "0 \<le> S" "S \<le> rnd (of_int ?tw / of_int ?ow)" "S \<le> rnd (of_int ?th / of_int ?oh)" and
    ns: "new_size self (?ow, ?oh) =
       Inr (trunc (rnd (rnd (of_int ?ow * S) * r)), trunc (rnd (rnd (of_int ?oh * S) * r)))"
    by blast
  define nw where "nw = trunc (rnd (rnd (of_int ?ow * S) * r))"
  define nh where "nh = trunc (rnd (rnd (of_int ?oh * S) * r))"
  define px where "px = (?tw - nw) div 2"
  define py where "py = (?th - nh) div 2"
  note cw = dim_chain [OF ow assms(5,6) S(1,2) assms(10,11)]
  note ch = dim_chain [OF oh assms(7,8) S(1,3) assms(10,11)]
  have bw: "0 \<le> nw" "nw \<le> ?tw"
    unfolding nw_def using cw(3,4) by (rule trunc_bounds)+
  have bh: "0 \<le> nh" "nh \<le> ?th"
    unfolding nh_def using ch(3,4) by (rule trunc_bounds)+
  have n: "new_size self (size_of img) = Inr (nw, nh)"
    by (simp add: size_of_def ns nw_def nh_def)
  have po: "paste_offset self (nw, nh) = (px, py)"
    by (simp add: paste_offset_def px_def py_def)
  have x: "0 \<le> px" "px + nw \<le> ?tw" using bw unfolding px_def by linarith+
  have y: "0 \<le> py" "py + nh \<le> ?th" using bh unfolding py_def by linarith+
  have reg: "\<forall>x y. in_region (px, py) (nw, nh) (x, y) \<longrightarrow>
       0 \<le> x \<and> x < ?tw \<and> 0 \<le> y \<and> y < ?th"
    using x y by (auto simp: in_region_def)
  have aw: "\<bar>of_int nw - of_int ?ow * S * r\<bar> < 1 + 1 / 2 ^ 20"
    unfolding nw_def
    by (rule trunc_close [OF cw(3) dim_close [OF ow assms(5,6) S(1,2) assms(10,11)]])
  have ah: "\<bar>of_int nh - of_int ?oh * S * r\<bar> < 1 + 1 / 2 ^ 20"
    unfolding nh_def
    by (rule trunc_close [OF ch(3) dim_close [OF oh assms(7,8) S(1,3) assms(10,11)]])
  from sc n po bw bh x y reg aw ah show ?thesis by blast
qed

text \<open>
  The theorem at the counterexample's input: the new size is (1, 1), pasted at (1, 1)
  inside the 3 by 3 canvas.
\<close>

theorem extend_image_no_cropping_witness:
  "new_size (ImageAugmentation_init 3 3 (Some (Fin (1 / 2)))) (size_of (solid_RGB 3 2 white))
     = Inr (1, 1) \<and>
   paste_offset (ImageAugmentation_init 3 3 (Some (Fin (1 / 2)))) (1, 1) = (1, 1) \<and>
   in_region (1, 1) (1, 1) (1, 1) \<and> (1::int) < 3"
proof -
  let ?self = "ImageAugmentation_init 3 3 (Some (Fin (1 / 2)))"
  let ?img = "solid_RGB 3 2 white"
  have sz: "size_of ?img = (3, 2)" by (simp add: size_of_def solid_RGB_def)
  have "\<exists>S nw nh px py.
    float_scale (target_width ?self) (target_height ?self) (int (width ?img)) (int (height ?img))
      = Fin S \<and>
    new_size ?self (size_of ?img) = Inr (nw, nh) \<and>
    paste_offset ?self (nw, nh) = (px, py) \<and>
    0 \<le> nw \<and> nw \<le> target_width ?self \<and> 0 \<le> nh \<and> nh \<le> target_height ?self \<and>
    0 \<le> px \<and> px + nw \<le> target_width ?self \<and> 0 \<le> py \<and> py + nh \<le> target_height ?self \<and>
    (\<forall>x y. in_region (px, py) (nw, nh) (x, y) \<longrightarrow>
       0 \<le> x \<and> x < target_width ?self \<and> 0 \<le> y \<and> y < target_height ?self) \<and>
    \<bar>of_int nw - of_int (int (width ?img)) * S * (1 / 2)\<bar> < 1 + 1 / 2 ^ 20 \<and>
    \<bar>of_int nh - of_int (int (height ?img)) * S * (1 / 2)\<bar> < 1 + 1 / 2 ^ 20"
    by (rule extend_image_no_cropping [where r = "1 / 2"])
      (simp_all add: solid_RGB_def init_fields)
  then obtain px py where
    p: "paste_offset ?self (1, 1) = (px, py)" and
    r: "\<forall>x y. in_region (px, py) (1, 1) (x, y) \<longrightarrow> 0 \<le> x \<and> x < 3 \<and> 0 \<le> y \<and> y < 3"
    by (auto simp: sz new_size_3_2 init_fields)
  have o: "paste_offset ?self (1, 1) = (1, 1)"
    by (simp add: paste_offset_def init_fields)
  have i: "in_region (1, 1) (1, 1) (1, 1)"
    by (simp add: in_region_def)
  from p o have "px = 1" "py = 1" by simp_all
  with r i have "(1::int) < 3" by blast
  with o i show ?thesis
    by (simp add: sz new_size_3_2)
qed

subsection \<open>Float rounding in the new size\<close>

lemma rnd_1_49: "rnd (1 / 49) = 5882252574524729 / 288230376151711744"
proof -
  have "rnd (1 / 49) = of_int (rhe ((1 / 49) / 2 powi (- 58))) * 2 powi (- 58)"
    by (rule rnd_eq [where e = "- 6"]) simp_all
  also have "(1 / 49) / 2 powi (- 58) = (288230376151711744 / 49 :: rat)"
    by simp
  also have "rhe (288230376151711744 / 49) = 5882252574524729"
    using rhe_divide [of 49 288230376151711744] by simp
  finally show ?thesis by simp
qed

lemma rnd_4900_49:
  "rnd (7205759403792793025 / 72057594037927936) = 7036874417766399 / 70368744177664"
proof -
  let ?x = "7205759403792793025 / 72057594037927936 :: rat"
  have "rnd ?x = of_int (rhe (?x / 2 powi (- 46))) * 2 powi (- 46)"
    by (rule rnd_eq [where e = 6]) simp_all
  also have "?x / 2 powi (- 46) = (7205759403792793025 / 1024 :: rat)"
    by simp
  also have "rhe (7205759403792793025 / 1024) = 7036874417766399"
    using rhe_divide [of 1024 7205759403792793025] by simp
  finally show ?thesis by simp
qed

lemma rnd_float_99: "rnd (7036874417766399 / 70368744177664) = 7036874417766399 / 70368744177664"
  using rnd_fix [of 7036874417766399 "- 46"] by simp

lemma fl_4900_values:
  "fl (1 / 49) = Fin (5882252574524729 / 288230376151711744)"
  "fl (7205759403792793025 / 72057594037927936) = Fin (7036874417766399 / 70368744177664)"
  "fl (7036874417766399 / 70368744177664) = Fin (7036874417766399 / 70368744177664)"
  "fl 4900 = Fin 4900"
proof -
  show "fl (1 / 49) = Fin (5882252574524729 / 288230376151711744)"
    using fl_fin [of "1 / 49"] by (simp add: rnd_1_49 max_double_def)
  show "fl (7205759403792793025 / 72057594037927936) = Fin (7036874417766399 / 70368744177664)"
    using fl_fin [of "7205759403792793025 / 72057594037927936"]
    by (simp add: rnd_4900_49 max_double_def)
  show "fl (7036874417766399 / 70368744177664) = Fin (7036874417766399 / 70368744177664)"
    using fl_fin [of "7036874417766399 / 70368744177664"]
    by (simp add: rnd_float_99 max_double_def)
  show "fl 4900 = Fin 4900"
    using fl_of_int [of 4900] by simp
qed

lemma trunc_99: "trunc (7036874417766399 / 70368744177664) = 99"
  using trunc_divide [of 7036874417766399 70368744177664] by simp

text \<open>
  The arithmetic of lines 64 to 66 is float arithmetic: a 4900 by 4900 image scaled to a
  100 by 100 target with \<open>roi_scale = 1\<close> is resized to 99 by 99, not 100 by 100, since
  \<open>4900 * (100 / 4900)\<close> rounds to the float just below 100.
\<close>

lemma new_size_4900:
  "new_size (ImageAugmentation_init 100 100 (Some (Fin 1))) (4900, 4900) = Inr (99, 99)"
  by (simp add: new_size_def init_fields py_truediv_def py_min_def
      py_int_mul_float_def py_float_def fl_4900_values trunc_99)

subsection \<open>Claim C3: the geometry of the specification\<close>

lemma spec_offset_nonneg:
  assumes "n \<le> t"
  shows "spec_offset t n = (t - n) div 2"
  using trunc_divide [of "t - n" 2] assms by (simp add: spec_offset_def)

lemma spec_scale_bounds:
  fixes tw th ow oh :: int
  assumes "0 < ow" "0 < tw" "0 < oh" "0 < th"
  shows "0 \<le> spec_scale tw th ow oh"
    and "of_int ow * spec_scale tw th ow oh \<le> of_int tw"
    and "of_int oh * spec_scale tw th ow oh \<le> of_int th"
proof -
  let ?a = "of_int tw / of_int ow :: rat" and ?b = "of_int th / of_int oh :: rat"
  have a0: "0 \<le> ?a" and b0: "0 \<le> ?b" using assms by simp_all
  have s: "spec_scale tw th ow oh = min ?a ?b" by (simp add: spec_scale_def)
  show "0 \<le> spec_scale tw th ow oh" unfolding s using a0 b0 by simp
  have ow: "(0::rat) < of_int ow" and oh: "(0::rat) < of_int oh" using assms by simp_all
  have "of_int ow * min ?a ?b \<le> of_int ow * ?a"
    by (rule mult_left_mono) (use ow in simp_all)
  also have "\<dots> = of_int tw" using ow by simp
  finally show "of_int ow * spec_scale tw th ow oh \<le> of_int tw" unfolding s .
  have "of_int oh * min ?a ?b \<le> of_int oh * ?b"
    by (rule mult_left_mono) (use oh in simp_all)
  also have "\<dots> = of_int th" using oh by simp
  finally show "of_int oh * spec_scale tw th ow oh \<le> of_int th" unfolding s .
qed

text \<open>
  Rounding the scale to a float moves the product \<open>o * scale * r\<close> by at most \<open>2^-21\<close>.
\<close>

lemma scale_close:
  fixes t o' :: int
  assumes "0 < o'" "o' < 2 ^ 31" "t < 2 ^ 31"
    and "0 \<le> s" "of_int o' * s \<le> of_int t" "0 < r" "r \<le> 1"
  shows "\<bar>of_int o' * rnd s * r - of_int o' * s * r\<bar> \<le> 1 / 2 ^ 21"
proof -
  let ?o = "of_int o' :: rat"
  have o0: "0 \<le> ?o" using assms(1) by simp
  have o1: "?o \<le> 2 ^ 31" using assms(2) by simp
  have t1: "(of_int t :: rat) \<le> 2 ^ 31" using assms(3) by simp
  have p53: "(0::rat) \<le> 2 powi (- 53)" by (rule less_imp_le [OF two_powi_pos])
  have p1075: "(0::rat) \<le> 2 powi (- 1075)" by (rule less_imp_le [OF two_powi_pos])
  have "\<bar>?o * rnd s * r - ?o * s * r\<bar> = ?o * \<bar>rnd s - s\<bar> * r"
  proof -
    have "?o * rnd s * r - ?o * s * r = ?o * (rnd s - s) * r" by (simp add: algebra_simps)
    then show ?thesis using o0 assms(6) by (simp add: abs_mult)
  qed
  also have "\<dots> \<le> ?o * \<bar>rnd s - s\<bar> * 1"
    by (rule mult_left_mono [OF assms(7)]) (use o0 in simp)
  also have "\<dots> = ?o * \<bar>rnd s - s\<bar>" by simp
  also have "\<dots> \<le> ?o * (\<bar>s\<bar> * 2 powi (- 53) + 2 powi (- 1075))"
    by (rule mult_left_mono [OF rnd_abs_err o0])
  also have "\<dots> = (?o * s) * 2 powi (- 53) + ?o * 2 powi (- 1075)"
    using assms(4) by (simp only: abs_of_nonneg distrib_left mult.assoc)
  also have "\<dots> \<le> 2 ^ 31 * 2 powi (- 53) + 2 ^ 31 * 2 powi (- 1075)"
  proof (rule add_mono)
    have "?o * s \<le> 2 ^ 31" using assms(5) t1 by linarith
    then show "(?o * s) * 2 powi (- 53) \<le> 2 ^ 31 * 2 powi (- 53)"
      using p53 by (rule mult_right_mono)
    show "?o * 2 powi (- 1075) \<le> 2 ^ 31 * 2 powi (- 1075)"
      using o1 p1075 by (rule mult_right_mono)
  qed
  also have "\<dots> \<le> 2 ^ 31 * 2 powi (- 53) + 2 ^ 31 * 2 powi (- 54)"
  proof (rule add_left_mono)
    have "(2::rat) powi (- 1075) \<le> 2 powi (- 54)" by (rule two_powi_le) simp
    then show "(2 ^ 31 * 2 powi (- 1075) :: rat) \<le> 2 ^ 31 * 2 powi (- 54)"
      by (rule mult_left_mono) simp
  qed
  also have "\<dots> \<le> 1 / 2 ^ 21" by simp
  finally show ?thesis .
qed

lemma trunc_near:
  assumes "0 \<le> q" "0 \<le> x" "\<bar>q - x\<bar> \<le> 1 / 2"
  shows "\<bar>trunc q - trunc x\<bar> \<le> 1"
proof -
  have q: "trunc q = \<lfloor>q\<rfloor>" using assms(1) by (rule trunc_nonneg)
  have x: "trunc x = \<lfloor>x\<rfloor>" using assms(2) by (rule trunc_nonneg)
  have fq: "of_int \<lfloor>q\<rfloor> \<le> q" "q < of_int \<lfloor>q\<rfloor> + 1" by linarith+
  have fx: "of_int \<lfloor>x\<rfloor> \<le> x" "x < of_int \<lfloor>x\<rfloor> + 1" by linarith+
  have "(of_int \<lfloor>q\<rfloor> :: rat) < of_int \<lfloor>x\<rfloor> + 2" using fq(1) fx(2) assms(3) by linarith
  then have "(of_int \<lfloor>q\<rfloor> :: rat) < of_int (\<lfloor>x\<rfloor> + 2)" by simp
  then have 1: "\<lfloor>q\<rfloor> < \<lfloor>x\<rfloor> + 2" by (simp only: of_int_less_iff)
  have "(of_int \<lfloor>x\<rfloor> :: rat) < of_int \<lfloor>q\<rfloor> + 2" using fx(1) fq(2) assms(3) by linarith
  then have "(of_int \<lfloor>x\<rfloor> :: rat) < of_int (\<lfloor>q\<rfloor> + 2)" by simp
  then have 2: "\<lfloor>x\<rfloor> < \<lfloor>q\<rfloor> + 2" by (simp only: of_int_less_iff)
  from 1 2 show ?thesis unfolding q x by linarith
qed

text \<open>
  The new dimension of the code is within 1 of the specification's truncated exact
  product.
\<close>

lemma new_dim_near_spec:
  fixes t o' :: int
  assumes "0 < o'" "o' < 2 ^ 31" "0 < t" "t < 2 ^ 31"
    and "0 \<le> s" "of_int o' * s \<le> of_int t" "rnd s \<le> rnd (of_int t / of_int o')"
    and "0 < r" "r \<le> 1"
  shows "\<bar>trunc (rnd (rnd (of_int o' * rnd s) * r)) - spec_new_dim o' s r\<bar> \<le> 1"
proof -
  let ?W = "rnd (rnd (of_int o' * rnd s) * r)"
  let ?E = "of_int o' * s * r"
  have S0: "0 \<le> rnd s" using assms(5) by (rule rnd_nonneg)
  note c = dim_chain [OF assms(1-4) S0 assms(7-9)]
  have 1: "\<bar>?W - of_int o' * rnd s * r\<bar> \<le> 1 / 2 ^ 20"
    by (rule dim_close [OF assms(1-4) S0 assms(7-9)])
  have 2: "\<bar>of_int o' * rnd s * r - ?E\<bar> \<le> 1 / 2 ^ 21"
    by (rule scale_close [OF assms(1,2,4,5,6,8,9)])
  have "\<bar>?W - ?E\<bar> = \<bar>(?W - of_int o' * rnd s * r) + (of_int o' * rnd s * r - ?E)\<bar>" by simp
  also have "\<dots> \<le> \<bar>?W - of_int o' * rnd s * r\<bar> + \<bar>of_int o' * rnd s * r - ?E\<bar>"
    by (rule abs_triangle_ineq)
  also have "\<dots> \<le> 1 / 2 ^ 20 + 1 / 2 ^ 21" using 1 2 by (rule add_mono)
  also have "\<dots> \<le> 1 / 2" by simp
  finally have close: "\<bar>?W - ?E\<bar> \<le> 1 / 2" .
  have E0: "0 \<le> ?E" using assms(1,5,8) by simp
  have "\<bar>trunc ?W - trunc ?E\<bar> \<le> 1" using c(3) E0 close by (rule trunc_near)
  then show ?thesis by (simp only: spec_new_dim_def)
qed

text \<open>
  Claim C3, as stated, fails: the formulas are evaluated in float arithmetic, with a
  rounding after every operation, so the new size is not always the truncated exact
  product. For a 4900 by 4900 image, a 100 by 100 target and \<open>roi_scale = 1\<close> the exact
  formula gives \<open>4900 * (100/4900) * 1 = 100\<close>, and the code resizes to 99 by 99.
\<close>

theorem exact_formula_counterexample:
  "new_size (ImageAugmentation_init 100 100 (Some (Fin 1))) (size_of (solid_RGB 4900 4900 white))
     = Inr (99, 99) \<and>
   spec_new_dim 4900 (spec_scale 100 100 4900 4900) 1 = 100 \<and>
   \<not> isl (extend_image nearest (ImageAugmentation_init 100 100 (Some (Fin 1)))
            (solid_RGB 4900 4900 white))"
proof -
  have sz: "size_of (solid_RGB 4900 4900 white) = (4900, 4900)"
    by (simp add: size_of_def solid_RGB_def)
  have d: "spec_new_dim 4900 (spec_scale 100 100 4900 4900) 1 = 100"
    using trunc_of_int [of 100] by (simp add: spec_new_dim_def spec_scale_def)
  have e: "\<not> isl (extend_image nearest (ImageAugmentation_init 100 100 (Some (Fin 1)))
            (solid_RGB 4900 4900 white))"
    by (simp add: sz new_size_4900 extend_image_def Image_resize_def c_int_def
        Image_new_RGB_def Image_paste_def max_width_def nearest_def init_fields)
  from d e show ?thesis by (simp add: sz new_size_4900)
qed

text \<open>
  Claim C3, amended. For a valid configuration (positive target dimensions, \<open>roi_scale\<close>
  in \<open>(0, 1]\<close>, all dimensions C integers) and an image of positive size: the scale is the
  float nearest to \<open>min(target_width/orig_w, target_height/orig_h)\<close>; each new dimension is
  \<open>orig * scale * roi_scale\<close> computed in floats, rounded after each multiplication, and
  truncated, which is within 1 of the truncated exact product; the paste offset is the
  truncated half difference. When a new dimension is below 1, \<^verbatim>\<open>resize\<close> raises
  \<^verbatim>\<open>ValueError\<close>. When both are at least 1, the target width is at most \<open>2^29 - 2\<close>
  and Pillow gets its memory, the result is the white canvas of the target size that
  holds, in the box of the new size at the offset, the RGB pixels of the source resized
  to the new size (the source itself when the size is unchanged).
\<close>

theorem extend_image_geometry:
  assumes "0 < width img" "width img < 2 ^ 31" "0 < height img" "height img < 2 ^ 31"
    and "0 < target_width self" "target_width self < 2 ^ 31"
    and "0 < target_height self" "target_height self < 2 ^ 31"
    and "roi_scale self = Fin r" "0 < r" "r \<le> 1"
  shows "\<exists>s S nw nh px py.
    s = spec_scale (target_width self) (target_height self) (int (width img)) (int (height img)) \<and>
    float_scale (target_width self) (target_height self) (int (width img)) (int (height img))
      = Fin S \<and>
    S = rnd s \<and>
    nw = trunc (rnd (rnd (of_int (int (width img)) * S) * r)) \<and>
    nh = trunc (rnd (rnd (of_int (int (height img)) * S) * r)) \<and>
    new_size self (size_of img) = Inr (nw, nh) \<and>
    \<bar>nw - spec_new_dim (int (width img)) s r\<bar> \<le> 1 \<and>
    \<bar>nh - spec_new_dim (int (height img)) s r\<bar> \<le> 1 \<and>
    px = spec_offset (target_width self) nw \<and>
    py = spec_offset (target_height self) nh \<and>
    paste_offset self (nw, nh) = (px, py) \<and>
    (nw < 1 \<or> nh < 1 \<longrightarrow> extend_image env self img = Inl ValueError) \<and>
    (1 \<le> nw \<and> 1 \<le> nh \<and> target_width self \<le> max_width \<and>
     memory env (For_resize img (nw, nh)) \<and>
     memory env (For_new (target_width self, target_height self)) \<and>
     memory env (For_convert (nw, nh)) \<longrightarrow>
       extend_image env self img =
         Inr \<lparr>width = nat (target_width self), height = nat (target_height self),
              raster = RGB (\<lambda>p.
                if in_region (px, py) (nw, nh) p
                then raster_to_RGB
                       (if size_of img = (nw, nh) then raster img
                        else resample env img (nat nw, nat nh))
                       (fst p - px, snd p - py)
                else white)\<rparr>)"
proof -
  let ?ow = "int (width img)" and ?oh = "int (height img)"
  let ?tw = "target_width self" and ?th = "target_height self"
  have ow: "0 < ?ow" "?ow < 2 ^ 31" and oh: "0 < ?oh" "?oh < 2 ^ 31"
    using assms(1-4) by simp_all
  define s where "s = spec_scale ?tw ?th ?ow ?oh"
  from new_size_valid [OF ow oh assms(5-11)] obtain S where
    sc: "float_scale ?tw ?th ?ow ?oh = Fin S" and
    S: "0 \<le> S" "S \<le> rnd (of_int ?tw / of_int ?ow)" "S \<le> rnd (of_int ?th / of_int ?oh)" and
    ns: "new_size self (?ow, ?oh) =
       Inr (trunc (rnd (rnd (of_int ?ow * S) * r)), trunc (rnd (rnd (of_int ?oh * S) * r)))" and
    Ss: "S = rnd s"
    unfolding s_def spec_scale_def by blast
  define nw where "nw = trunc (rnd (rnd (of_int ?ow * S) * r))"
  define nh where "nh = trunc (rnd (rnd (of_int ?oh * S) * r))"
  define px where "px = spec_offset ?tw nw"
  define py where "py = spec_offset ?th nh"
  note cw = dim_chain [OF ow assms(5,6) S(1,2) assms(10,11)]
  note ch = dim_chain [OF oh assms(7,8) S(1,3) assms(10,11)]
  have bw: "0 \<le> nw" "nw \<le> ?tw"
    unfolding nw_def using cw(3,4) by (rule trunc_bounds)+
  have bh: "0 \<le> nh" "nh \<le> ?th"
    unfolding nh_def using ch(3,4) by (rule trunc_bounds)+
  have lw: "nw < 2 ^ 31" using bw(2) assms(6) by simp
  have lh: "nh < 2 ^ 31" using bh(2) assms(8) by simp
  have ci: "c_int nw" "c_int nh"
    using bw(1) bh(1) lw lh by (simp_all add: c_int_def)
  have th0: "0 \<le> ?th" using assms(7) by simp
  have n: "new_size self (size_of img) = Inr (nw, nh)"
    by (simp add: size_of_def ns nw_def nh_def)
  note sb = spec_scale_bounds [OF ow(1) assms(5) oh(1) assms(7), folded s_def]
  have dw: "\<bar>nw - spec_new_dim ?ow s r\<bar> \<le> 1"
    unfolding nw_def Ss
    by (rule new_dim_near_spec [OF ow assms(5,6) sb(1,2) _ assms(10,11)])
      (use S(2) in \<open>simp only: Ss\<close>)
  have dh: "\<bar>nh - spec_new_dim ?oh s r\<bar> \<le> 1"
    unfolding nh_def Ss
    by (rule new_dim_near_spec [OF oh assms(7,8) sb(1,3) _ assms(10,11)])
      (use S(3) in \<open>simp only: Ss\<close>)
  have po: "paste_offset self (nw, nh) = (px, py)"
    by (simp add: paste_offset_def px_def py_def
        spec_offset_nonneg [OF bw(2)] spec_offset_nonneg [OF bh(2)])
  have small: "extend_image env self img = Inl ValueError" if "nw < 1 \<or> nh < 1"
    using n assms(1,3) ci that by (rule extend_image_small)
  have ok: "extend_image env self img =
         Inr \<lparr>width = nat ?tw, height = nat ?th,
              raster = RGB (\<lambda>p.
                if in_region (px, py) (nw, nh) p
                then raster_to_RGB
                       (if size_of img = (nw, nh) then raster img
                        else resample env img (nat nw, nat nh))
                       (fst p - px, snd p - py)
                else white)\<rparr>"
    if h: "1 \<le> nw \<and> 1 \<le> nh \<and> ?tw \<le> max_width \<and>
      memory env (For_resize img (nw, nh)) \<and> memory env (For_new (?tw, ?th)) \<and>
      memory env (For_convert (nw, nh))"
  proof -
    from h have h1: "1 \<le> nw" and h2: "1 \<le> nh" and h3: "?tw \<le> max_width"
      and m1: "memory env (For_resize img (nw, nh))"
      and m2: "memory env (For_new (?tw, ?th))"
      and m3: "memory env (For_convert (nw, nh))" by simp_all
    note extend_image_ok [OF n h1 bw(2) h2 lh h3 th0 assms(8) m1 m2 m3]
    then show ?thesis by (simp only: po fst_conv snd_conv)
  qed
  show ?thesis
  proof (rule exI [of _ s], rule exI [of _ S], rule exI [of _ nw], rule exI [of _ nh],
      rule exI [of _ px], rule exI [of _ py], intro conjI)
    show "s = spec_scale ?tw ?th ?ow ?oh" by (rule s_def)
    show "float_scale ?tw ?th ?ow ?oh = Fin S" by (rule sc)
    show "S = rnd s" by (rule Ss)
    show "nw = trunc (rnd (rnd (of_int ?ow * S) * r))" by (rule nw_def)
    show "nh = trunc (rnd (rnd (of_int ?oh * S) * r))" by (rule nh_def)
    show "new_size self (size_of img) = Inr (nw, nh)" by (rule n)
    show "\<bar>nw - spec_new_dim ?ow s r\<bar> \<le> 1" by (rule dw)
    show "\<bar>nh - spec_new_dim ?oh s r\<bar> \<le> 1" by (rule dh)
    show "px = spec_offset ?tw nw" by (rule px_def)
    show "py = spec_offset ?th nh" by (rule py_def)
    show "paste_offset self (nw, nh) = (px, py)" by (rule po)
    show "nw < 1 \<or> nh < 1 \<longrightarrow> extend_image env self img = Inl ValueError"
      using small by (rule impI)
    show "1 \<le> nw \<and> 1 \<le> nh \<and> ?tw \<le> max_width \<and>
        memory env (For_resize img (nw, nh)) \<and> memory env (For_new (?tw, ?th)) \<and>
        memory env (For_convert (nw, nh)) \<longrightarrow>
      extend_image env self img =
         Inr \<lparr>width = nat ?tw, height = nat ?th,
              raster = RGB (\<lambda>p.
                if in_region (px, py) (nw, nh) p
                then raster_to_RGB
                       (if size_of img = (nw, nh) then raster img
                        else resample env img (nat nw, nat nh))
                       (fst p - px, snd p - py)
                else white)\<rparr>"
      using ok by (rule impI)
  qed
qed

text \<open>
  The theorem at a 2 by 2 image of mode \<^verbatim>\<open>L\<close> with every pixel 9, an 8 by 8 target and
  \<open>roi_scale = 1/2\<close>, with all memory granted: the scale is 4, the new size (4, 4), as the
  exact formula gives, and the offset (2, 2); the result is grey in the box from (2, 2) to
  (5, 5) and white around it.
\<close>

theorem extend_image_geometry_witness:
  "new_size (ImageAugmentation_init 8 8 (Some (Fin (1 / 2)))) (size_of (solid_L 2 2 9))
     = Inr (4, 4) \<and>
   spec_new_dim 2 (spec_scale 8 8 2 2) (1 / 2) = 4 \<and>
   paste_offset (ImageAugmentation_init 8 8 (Some (Fin (1 / 2)))) (4, 4) = (2, 2) \<and>
   (\<exists>out. extend_image nearest (ImageAugmentation_init 8 8 (Some (Fin (1 / 2)))) (solid_L 2 2 9)
       = Inr out \<and>
     pixel_at out (2, 2) = Some (Band3 9 9 9) \<and> pixel_at out (5, 5) = Some (Band3 9 9 9) \<and>
     pixel_at out (1, 1) = Some (Band3 255 255 255) \<and>
     pixel_at out (6, 6) = Some (Band3 255 255 255))"
proof -
  let ?self = "ImageAugmentation_init 8 8 (Some (Fin (1 / 2)))"
  let ?img = "solid_L 2 2 9"
  have sz: "size_of ?img = (2, 2)" by (simp add: size_of_def solid_L_def)
  have wh: "int (width ?img) = 2" "int (height ?img) = 2" by (simp_all add: solid_L_def)
  have so: "spec_offset 8 4 = 2" by (simp add: spec_offset_def trunc_values)
  have sd: "spec_new_dim 2 (spec_scale 8 8 2 2) (1 / 2) = 4"
    by (simp add: spec_new_dim_def spec_scale_def trunc_values)
  have po: "paste_offset ?self (4, 4) = (2, 2)"
    by (simp add: paste_offset_def init_fields)
  have "\<exists>s S nw nh px py.
    s = spec_scale (target_width ?self) (target_height ?self)
          (int (width ?img)) (int (height ?img)) \<and>
    float_scale (target_width ?self) (target_height ?self)
          (int (width ?img)) (int (height ?img)) = Fin S \<and>
    S = rnd s \<and>
    nw = trunc (rnd (rnd (of_int (int (width ?img)) * S) * (1 / 2))) \<and>
    nh = trunc (rnd (rnd (of_int (int (height ?img)) * S) * (1 / 2))) \<and>
    new_size ?self (size_of ?img) = Inr (nw, nh) \<and>
    \<bar>nw - spec_new_dim (int (width ?img)) s (1 / 2)\<bar> \<le> 1 \<and>
    \<bar>nh - spec_new_dim (int (height ?img)) s (1 / 2)\<bar> \<le> 1 \<and>
    px = spec_offset (target_width ?self) nw \<and>
    py = spec_offset (target_height ?self) nh \<and>
    paste_offset ?self (nw, nh) = (px, py) \<and>
    (nw < 1 \<or> nh < 1 \<longrightarrow> extend_image nearest ?self ?img = Inl ValueError) \<and>
    (1 \<le> nw \<and> 1 \<le> nh \<and> target_width ?self \<le> max_width \<and>
     memory nearest (For_resize ?img (nw, nh)) \<and>
     memory nearest (For_new (target_width ?self, target_height ?self)) \<and>
     memory nearest (For_convert (nw, nh)) \<longrightarrow>
       extend_image nearest ?self ?img =
         Inr \<lparr>width = nat (target_width ?self), height = nat (target_height ?self),
              raster = RGB (\<lambda>p.
                if in_region (px, py) (nw, nh) p
                then raster_to_RGB
                       (if size_of ?img = (nw, nh) then raster ?img
                        else resample nearest ?img (nat nw, nat nh))
                       (fst p - px, snd p - py)
                else white)\<rparr>)"
    by (rule extend_image_geometry [where r = "1 / 2"])
      (simp_all add: solid_L_def init_fields)
  then obtain nw nh px py where
    n: "new_size ?self (size_of ?img) = Inr (nw, nh)" and
    px: "px = spec_offset (target_width ?self) nw" and
    py: "py = spec_offset (target_height ?self) nh" and
    ok: "1 \<le> nw \<and> 1 \<le> nh \<and> target_width ?self \<le> max_width \<and>
     memory nearest (For_resize ?img (nw, nh)) \<and>
     memory nearest (For_new (target_width ?self, target_height ?self)) \<and>
     memory nearest (For_convert (nw, nh)) \<longrightarrow>
       extend_image nearest ?self ?img =
         Inr \<lparr>width = nat (target_width ?self), height = nat (target_height ?self),
              raster = RGB (\<lambda>p.
                if in_region (px, py) (nw, nh) p
                then raster_to_RGB
                       (if size_of ?img = (nw, nh) then raster ?img
                        else resample nearest ?img (nat nw, nat nh))
                       (fst p - px, snd p - py)
                else white)\<rparr>"
    by blast
  from n have nn: "nw = 4" "nh = 4" by (simp_all add: sz new_size_square)
  have pp: "px = 2" "py = 2" by (simp_all add: px py nn init_fields so)
  let ?out = "\<lparr>width = 8, height = 8,
              raster = RGB (\<lambda>p.
                if in_region (2, 2) (4, 4) p
                then raster_to_RGB (resample nearest ?img (4, 4)) (fst p - 2, snd p - 2)
                else white)\<rparr>"
  from ok [unfolded nn pp] have e: "extend_image nearest ?self ?img = Inr ?out"
    by (simp add: sz init_fields max_width_def nearest_def cong: if_cong)
  have r: "resample nearest ?img (4, 4) = Grey (\<lambda>p. 9)"
    by (simp add: nearest_def nearest_raster_def solid_L_def)
  have p1: "pixel_at ?out (2, 2) = Some (Band3 9 9 9)"
    by (simp add: pixel_at_def inside_def in_region_def r)
  have p2: "pixel_at ?out (5, 5) = Some (Band3 9 9 9)"
    by (simp add: pixel_at_def inside_def in_region_def r)
  have p3: "pixel_at ?out (1, 1) = Some (Band3 255 255 255)"
    by (simp add: pixel_at_def inside_def in_region_def white_def)
  have p4: "pixel_at ?out (6, 6) = Some (Band3 255 255 255)"
    by (simp add: pixel_at_def inside_def in_region_def white_def)
  from e p1 p2 p3 p4 have
    "\<exists>out. extend_image nearest ?self ?img = Inr out \<and>
     pixel_at out (2, 2) = Some (Band3 9 9 9) \<and> pixel_at out (5, 5) = Some (Band3 9 9 9) \<and>
     pixel_at out (1, 1) = Some (Band3 255 255 255) \<and>
     pixel_at out (6, 6) = Some (Band3 255 255 255)"
    by blast
  with sd po show ?thesis by (simp only: sz new_size_square simp_thms)
qed

end
